theory Spec2Isabelle
  imports Complex_Main "HOL-Library.Word" "HOL-Library.Product_Lexorder"
begin

section \<open>Python values used by the code\<close>

text \<open>
  A Python \<open>str\<close> is a sequence of code points. The model covers the strings whose code
  points lie in U+0000..U+00FF: a \<^typ>\<open>char\<close> is read as the code point with the same
  number, and \<^term>\<open>length\<close> is Python's \<open>len\<close>. The character classes below are the
  ones Python's \<open>str\<close> methods and the \<open>re\<close> module have on that range.
\<close>

datatype error =
    ValueError
  | IndexError
  | KeyError string
  | TypeError
  | AttributeError string
  | JSONDecodeError
  | UnicodeDecodeError
  | RecursionError
  | OSError
  | Raised string

definition code_point :: "char \<Rightarrow> nat" where
  "code_point c = of_char c"

definition isspace :: "char \<Rightarrow> bool" where
  \<comment> \<open>\<open>str.isspace\<close> and the class \<open>\s\<close>: TAB..CR, FS..US, SPACE, NEL, NBSP\<close>
  "isspace c = (let n = code_point c in
     (9 \<le> n \<and> n \<le> 13) \<or> (28 \<le> n \<and> n \<le> 32) \<or> n = 133 \<or> n = 160)"

definition isdecimal :: "char \<Rightarrow> bool" where
  \<comment> \<open>\<open>str.isdecimal\<close> and the class \<open>\d\<close> of a \<open>str\<close> pattern (category Nd). Of the Unicode
      decimal digits only 0..9 lie in the modelled range; the digits of other scripts, which
      \<open>\d\<close> also matches, all lie above U+00FF\<close>
  "isdecimal c = (let n = code_point c in 48 \<le> n \<and> n \<le> 57)"

definition isdigit_char :: "char \<Rightarrow> bool" where
  \<comment> \<open>\<open>str.isdigit\<close> also accepts the superscript digits U+00B2, U+00B3 and U+00B9\<close>
  "isdigit_char c = (let n = code_point c in
     (48 \<le> n \<and> n \<le> 57) \<or> n = 178 \<or> n = 179 \<or> n = 185)"

definition isdigit :: "string \<Rightarrow> bool" where
  \<comment> \<open>\<open>s.isdigit()\<close>: at least one character, and all of them digits\<close>
  "isdigit s = (s \<noteq> [] \<and> list_all isdigit_char s)"

definition digit_value :: "char \<Rightarrow> int" where
  "digit_value c = int (code_point c) - 48"

definition max_str_digits :: nat where
  \<comment> \<open>CPython's default limit on the number of digits in a conversion between \<open>int\<close> and
      \<open>str\<close> (\<open>sys.int_info.default_max_str_digits\<close>)\<close>
  "max_str_digits = 4300"

definition py_int :: "string \<Rightarrow> error + int" where
  \<comment> \<open>\<open>int(s)\<close> on a string that passed \<open>isdigit()\<close>: the decimal value when every
      character is a decimal digit and there are at most \<open>max_str_digits\<close> of them;
      ValueError on a superscript digit and on a longer string\<close>
  "py_int s = (if s \<noteq> [] \<and> list_all isdecimal s \<and> length s \<le> max_str_digits
     then Inr (foldl (\<lambda>a c. 10 * a + digit_value c) 0 s)
     else Inl ValueError)"

definition digit_char :: "nat \<Rightarrow> char" where
  "digit_char d = char_of (48 + d)"

fun digits_of :: "nat \<Rightarrow> string" where
  "digits_of n = (if n < 10 then [digit_char n] else digits_of (n div 10) @ [digit_char (n mod 10)])"

declare digits_of.simps [simp del]

definition decimal :: "int \<Rightarrow> string" where
  \<comment> \<open>the decimal text of an integer\<close>
  "decimal i = (if i < 0 then CHR ''-'' # digits_of (nat (- i)) else digits_of (nat i))"

definition py_str :: "int \<Rightarrow> error + string" where
  \<comment> \<open>\<open>str(i)\<close>, which an f-string applies to an integer field: ValueError when the
      integer has more than \<open>max_str_digits\<close> digits\<close>
  "py_str i = (if length (digits_of (nat \<bar>i\<bar>)) > max_str_digits then Inl ValueError
     else Inr (decimal i))"

fun split_on :: "char \<Rightarrow> string \<Rightarrow> string list" where
  \<comment> \<open>\<open>s.split(sep)\<close> for a one-character separator\<close>
  "split_on sep [] = [[]]"
| "split_on sep (c # cs) =
     (if c = sep then [] # split_on sep cs
      else (case split_on sep cs of [] \<Rightarrow> [[c]] | p # ps \<Rightarrow> (c # p) # ps))"

definition index0 :: "'a list \<Rightarrow> error + 'a" where
  \<comment> \<open>\<open>xs[0]\<close>\<close>
  "index0 xs = (case xs of [] \<Rightarrow> Inl IndexError | x # _ \<Rightarrow> Inr x)"

section \<open>versioning.py: version arithmetic\<close>

definition version_part :: "string list \<Rightarrow> nat \<Rightarrow> error + int" where
  \<comment> \<open>\<open>int(parts[i]) if len(parts) > i and parts[i].isdigit() else 0\<close>\<close>
  "version_part parts i =
     (if length parts > i \<and> isdigit (parts ! i) then py_int (parts ! i) else Inr 0)"

definition parse_version_parts :: "string \<Rightarrow> error + (int \<times> int \<times> int)" where
  "parse_version_parts version =
     (case index0 (split_on CHR ''-'' version) of Inl e \<Rightarrow> Inl e | Inr before_dash \<Rightarrow>
      case index0 (split_on CHR ''+'' before_dash) of Inl e \<Rightarrow> Inl e | Inr clean_version \<Rightarrow>
      let parts = split_on CHR ''.'' clean_version in
      case version_part parts 0 of Inl e \<Rightarrow> Inl e | Inr major \<Rightarrow>
      case version_part parts 1 of Inl e \<Rightarrow> Inl e | Inr minor \<Rightarrow>
      case version_part parts 2 of Inl e \<Rightarrow> Inl e | Inr patch \<Rightarrow>
      Inr (major, minor, patch))"

definition bump_version :: "string \<Rightarrow> string \<Rightarrow> error + string" where
  "bump_version current_version bump_type =
     (case parse_version_parts current_version of Inl e \<Rightarrow> Inl e
      | Inr (major, minor, patch) \<Rightarrow>
          if bump_type = ''major'' then
            (case py_str (major + 1) of Inl e \<Rightarrow> Inl e | Inr a \<Rightarrow> Inr (a @ ''.0.0''))
          else if bump_type = ''minor'' then
            (case py_str major of Inl e \<Rightarrow> Inl e | Inr a \<Rightarrow>
             case py_str (minor + 1) of Inl e \<Rightarrow> Inl e | Inr b \<Rightarrow>
             Inr (a @ ''.'' @ b @ ''.0''))
          else
            (case py_str major of Inl e \<Rightarrow> Inl e | Inr a \<Rightarrow>
             case py_str minor of Inl e \<Rightarrow> Inl e | Inr b \<Rightarrow>
             case py_str (patch + 1) of Inl e \<Rightarrow> Inl e | Inr c \<Rightarrow>
             Inr (a @ ''.'' @ b @ ''.'' @ c)))"

section \<open>versioning.py: change classification\<close>

definition strip :: "string \<Rightarrow> string" where
  \<comment> \<open>\<open>s.strip()\<close>\<close>
  "strip s = rev (dropWhile isspace (rev (dropWhile isspace s)))"

function collapse_ws :: "string \<Rightarrow> string" where
  \<comment> \<open>\<open>re.sub(r'\s+', ' ', s)\<close>: every maximal run of whitespace becomes one space\<close>
  "collapse_ws [] = []"
| "collapse_ws (c # cs) =
     (if isspace c then CHR '' '' # collapse_ws (dropWhile isspace cs) else c # collapse_ws cs)"
  by pat_completeness auto
termination
  by (relation "measure length") (auto simp: length_dropWhile_le less_Suc_eq_le)

definition lower_char :: "char \<Rightarrow> char" where
  \<comment> \<open>\<open>str.lower\<close> on one code point: A..Z and U+00C0..U+00DE (without U+00D7) move by 32\<close>
  "lower_char c = (let n = code_point c in
     if (65 \<le> n \<and> n \<le> 90) \<or> (192 \<le> n \<and> n \<le> 222 \<and> n \<noteq> 215) then char_of (n + 32) else c)"

definition lower :: "string \<Rightarrow> string" where
  "lower s = map lower_char s"

definition normalize_prompt :: "string \<Rightarrow> string" where
  "normalize_prompt prompt = lower (collapse_ws (strip prompt))"

fun startswith :: "string \<Rightarrow> string \<Rightarrow> bool" where
  \<comment> \<open>\<open>s.startswith(k)\<close>\<close>
  "startswith s [] = True"
| "startswith [] (k # ks) = False"
| "startswith (c # cs) (k # ks) = (if c = k then startswith cs ks else False)"

fun contains :: "string \<Rightarrow> string \<Rightarrow> bool" where
  \<comment> \<open>\<open>k in s\<close> on strings: \<open>k\<close> occurs in \<open>s\<close> as a contiguous substring\<close>
  "contains k [] = (k = [])"
| "contains k (c # cs) = (if startswith (c # cs) k then True else contains k cs)"

function split_ws :: "string \<Rightarrow> string list" where
  \<comment> \<open>\<open>s.split()\<close>: the maximal runs of characters that are not whitespace\<close>
  "split_ws s =
     (case dropWhile isspace s of [] \<Rightarrow> []
      | c # cs \<Rightarrow> (c # takeWhile (\<lambda>x. \<not> isspace x) cs) # split_ws (dropWhile (\<lambda>x. \<not> isspace x) cs))"
  by pat_completeness auto
termination
proof (relation "measure length")
  show "wf (measure length)" by simp
next
  fix s :: string and c cs
  assume h: "dropWhile isspace s = c # cs"
  have "length (dropWhile (\<lambda>x. \<not> isspace x) cs) \<le> length cs"
    by (rule length_dropWhile_le)
  moreover have "length (c # cs) \<le> length s"
    using length_dropWhile_le [of isspace s] h by simp
  ultimately show "(dropWhile (\<lambda>x. \<not> isspace x) cs, s) \<in> measure length"
    by simp
qed

declare split_ws.simps [simp del]

definition breaking_keywords :: "string list" where
  "breaking_keywords =
     [''instead of'', ''no longer'', ''removed'', ''deprecated'', ''breaking'',
      ''change from'', ''replaced with'', ''completely different'', ''new approach'',
      ''different format'', ''different structure'', ''different output'',
      ''must not'', ''cannot'', ''will not'', ''discontinued'', ''obsolete'',
      ''migrate to'', ''upgrade to'', ''switch to'', ''abandoned'']"

definition feature_keywords :: "string list" where
  "feature_keywords =
     [''also'', ''additionally'', ''new'', ''enhanced'', ''improved'', ''better'',
      ''more'', ''extra'', ''additional'', ''further'', ''extended'', ''expanded'',
      ''support for'', ''now supports'', ''can also'', ''in addition'',
      ''optionally'', ''option'', ''feature'', ''capability'', ''functionality'',
      ''include'', ''incorporate'', ''integrate'', ''combine'', ''merge'']"

definition functionality_indicators :: "string list" where
  "functionality_indicators =
     [''you can now'', ''it is now possible'', ''added support'',
      ''new feature'', ''enhanced with'', ''upgraded to include'',
      ''now includes'', ''now provides'', ''now offers'']"

definition new_only :: "string list \<Rightarrow> string \<Rightarrow> string \<Rightarrow> bool" where
  \<comment> \<open>the loop \<open>for k in ks: if k in new and k not in old: return True\<close>\<close>
  "new_only ks old_prompt new_prompt =
     list_ex (\<lambda>k. contains k new_prompt \<and> \<not> contains k old_prompt) ks"

text \<open>
  The ratios are quotients of two lengths, compared with a decimal constant. Python
  computes them in binary floating point; the model computes them in the rationals.
\<close>

definition sentence_ratio_major :: "string \<Rightarrow> string \<Rightarrow> bool" where
  "sentence_ratio_major old_prompt new_prompt =
     (let old_sentences = split_on CHR ''.'' old_prompt;
          new_sentences = split_on CHR ''.'' new_prompt
      in length new_sentences > 0 \<and> length old_sentences > 0 \<and>
         (of_int \<bar>int (length new_sentences) - int (length old_sentences)\<bar>
            / of_nat (max (length old_sentences) 1) :: rat) > 6 / 10)"

definition similarity_major :: "string \<Rightarrow> string \<Rightarrow> bool" where
  "similarity_major old_prompt new_prompt =
     (length new_prompt > 0 \<and> length old_prompt > 0 \<and>
      (let old_words = set (split_ws old_prompt);
           new_words = set (split_ws new_prompt);
           common_words = old_words \<inter> new_words;
           total_words = old_words \<union> new_words
       in card total_words > 0 \<and>
          (of_nat (card common_words) / of_nat (card total_words) :: rat) < 25 / 100))"

definition length_ratio_major :: "string \<Rightarrow> string \<Rightarrow> bool" where
  "length_ratio_major old_prompt new_prompt =
     (length old_prompt > 0 \<and>
      (of_int \<bar>int (length new_prompt) - int (length old_prompt)\<bar>
         / of_nat (length old_prompt) :: rat) > 8 / 10)"

definition is_major_change :: "string \<Rightarrow> string \<Rightarrow> bool" where
  "is_major_change old_prompt new_prompt =
     (if new_only breaking_keywords old_prompt new_prompt then True
      else if sentence_ratio_major old_prompt new_prompt then True
      else if similarity_major old_prompt new_prompt then True
      else if length_ratio_major old_prompt new_prompt then True
      else False)"

definition sentences :: "string \<Rightarrow> string list" where
  \<comment> \<open>\<open>[s.strip() for s in p.split('.') if s.strip()]\<close>\<close>
  "sentences p = map strip (filter (\<lambda>s. strip s \<noteq> []) (split_on CHR ''.'' p))"

definition is_minor_change :: "string \<Rightarrow> string \<Rightarrow> bool" where
  "is_minor_change old_prompt new_prompt =
     (if new_only feature_keywords old_prompt new_prompt then True
      else if card (set (split_ws new_prompt) - set (split_ws old_prompt)) > 8 then True
      else if length old_prompt > 0 \<and>
              (of_nat (length new_prompt) :: rat) > of_nat (length old_prompt) * (13 / 10) then True
      else if length (sentences new_prompt) > length (sentences old_prompt) + 1 then True
      else if new_only functionality_indicators old_prompt new_prompt then True
      else False)"

definition analyze_prompt_changes :: "string \<Rightarrow> string \<Rightarrow> string" where
  "analyze_prompt_changes old_prompt new_prompt =
     (if old_prompt = new_prompt then ''patch''
      else let old_normalized = normalize_prompt old_prompt;
               new_normalized = normalize_prompt new_prompt
           in if is_major_change old_normalized new_normalized then ''major''
              else if is_minor_change old_normalized new_normalized then ''minor''
              else ''patch'')"

section \<open>models.py: the version record\<close>

text \<open>
  Values that a JSON document or a call argument can hold. A float is kept as its 64 bits:
  the code stores and returns floats and never computes with them. A dictionary is the list
  of its items in insertion order, with distinct keys.
\<close>

datatype pyval =
    PNone
  | PBool bool
  | PInt int
  | PFloat "64 word"
  | PStr string
  | PList "pyval list"
  | PDict "(string \<times> pyval) list"

fun truthy :: "pyval \<Rightarrow> bool" where
  \<comment> \<open>the truth value that \<open>x or y\<close> and \<open>if x\<close> test\<close>
  "truthy PNone = False"
| "truthy (PBool b) = b"
| "truthy (PInt i) = (i \<noteq> 0)"
| "truthy (PFloat w) = (w \<noteq> 0 \<and> w \<noteq> 0x8000000000000000)"
| "truthy (PStr s) = (s \<noteq> [])"
| "truthy (PList xs) = (xs \<noteq> [])"
| "truthy (PDict d) = (d \<noteq> [])"

definition py_or :: "pyval \<Rightarrow> pyval \<Rightarrow> pyval" where
  \<comment> \<open>\<open>x or y\<close>\<close>
  "py_or x y = (if truthy x then x else y)"

record datetime =
  year :: nat
  month :: nat
  day :: nat
  hour :: nat
  minute :: nat
  second :: nat
  microsecond :: nat

text \<open>
  The library functions the code calls and this repository does not define are parameters:
  \<open>hashlib.md5(b).hexdigest()\<close> on the encoded string, \<open>datetime.isoformat\<close>,
  \<open>datetime.fromisoformat\<close> (\<open>None\<close> where it raises ValueError),
  \<open>strftime('%Y%m%d_%H%M%S')\<close>, and \<open>str\<close> on a value inside an f-string.
\<close>

record pylib =
  md5_hexdigest :: "string \<Rightarrow> string"
  isoformat :: "datetime \<Rightarrow> string"
  fromisoformat :: "string \<Rightarrow> datetime option"
  strftime :: "datetime \<Rightarrow> string"
  str_value :: "pyval \<Rightarrow> string"

record PromptVersion =
  prompt :: string
  version :: pyval
  function_name :: pyval
  description :: pyval
  tags :: pyval
  created_at :: datetime
  prompt_hash :: string
  inputs :: pyval
  output_value :: pyval
  execution_time :: pyval
  execution_id :: pyval

definition PromptVersion_init ::
  "pylib \<Rightarrow> datetime \<Rightarrow> pyval \<Rightarrow> pyval \<Rightarrow> pyval \<Rightarrow> pyval \<Rightarrow> pyval \<Rightarrow> datetime option
     \<Rightarrow> pyval \<Rightarrow> pyval \<Rightarrow> pyval \<Rightarrow> pyval \<Rightarrow> error + PromptVersion" where
  \<comment> \<open>\<open>PromptVersion.__init__\<close>; \<open>now\<close> is what \<open>datetime.now()\<close> returns.
      \<open>prompt.encode()\<close> exists on a string only; it encodes every string of the modelled
      range (the lone surrogates, which it rejects, lie above U+00FF).\<close>
  "PromptVersion_init lib now prompt_arg version_arg function_name_arg description_arg tags_arg
       created_at_arg inputs_arg output_arg execution_time_arg execution_id_arg =
     (case prompt_arg of
        PStr p \<Rightarrow>
          (let created = (case created_at_arg of None \<Rightarrow> now | Some d \<Rightarrow> d);
               h = take 8 (md5_hexdigest lib p)
           in Inr \<lparr> prompt = p,
                    version = version_arg,
                    function_name = function_name_arg,
                    description = py_or description_arg (PStr []),
                    tags = py_or tags_arg (PList []),
                    created_at = created,
                    prompt_hash = h,
                    inputs = py_or inputs_arg (PDict []),
                    output_value = output_arg,
                    execution_time = execution_time_arg,
                    execution_id = py_or execution_id_arg (PStr (strftime lib created @ ''_'' @ h)) \<rparr>)
      | _ \<Rightarrow> Inl (AttributeError ''encode''))"

definition to_dict :: "pylib \<Rightarrow> PromptVersion \<Rightarrow> (string \<times> pyval) list" where
  "to_dict lib self =
     [(''prompt'', PStr (prompt self)),
      (''version'', version self),
      (''function_name'', function_name self),
      (''description'', description self),
      (''tags'', tags self),
      (''created_at'', PStr (isoformat lib (created_at self))),
      (''prompt_hash'', PStr (prompt_hash self)),
      (''inputs'', inputs self),
      (''output'', output_value self),
      (''execution_time'', execution_time self),
      (''execution_id'', execution_id self)]"

definition getitem :: "pyval \<Rightarrow> string \<Rightarrow> error + pyval" where
  \<comment> \<open>\<open>data[k]\<close> with a string key: KeyError on a dictionary without the key, TypeError on
      a value of any other type\<close>
  "getitem data k =
     (case data of
        PDict d \<Rightarrow> (case map_of d k of None \<Rightarrow> Inl (KeyError k) | Some v \<Rightarrow> Inr v)
      | _ \<Rightarrow> Inl TypeError)"

definition dict_get :: "pyval \<Rightarrow> string \<Rightarrow> pyval \<Rightarrow> error + pyval" where
  \<comment> \<open>\<open>data.get(k, default)\<close>\<close>
  "dict_get data k dflt =
     (case data of
        PDict d \<Rightarrow> (case map_of d k of None \<Rightarrow> Inr dflt | Some v \<Rightarrow> Inr v)
      | _ \<Rightarrow> Inl (AttributeError ''get''))"

definition parse_created_at :: "pylib \<Rightarrow> pyval \<Rightarrow> error + datetime" where
  \<comment> \<open>\<open>datetime.fromisoformat(x)\<close>: TypeError unless \<open>x\<close> is a string, ValueError on a string
      that is not an ISO date\<close>
  "parse_created_at lib x =
     (case x of
        PStr s \<Rightarrow> (case fromisoformat lib s of None \<Rightarrow> Inl ValueError | Some d \<Rightarrow> Inr d)
      | _ \<Rightarrow> Inl TypeError)"

definition and_then :: "error + 'a \<Rightarrow> ('a \<Rightarrow> error + 'b) \<Rightarrow> error + 'b" where
  \<comment> \<open>sequencing: an exception raised by the first step ends the computation\<close>
  "and_then m f = (case m of Inl e \<Rightarrow> Inl e | Inr x \<Rightarrow> f x)"

definition from_dict :: "pylib \<Rightarrow> datetime \<Rightarrow> pyval \<Rightarrow> error + PromptVersion" where
  \<comment> \<open>the keyword arguments are evaluated in the order they are written\<close>
  "from_dict lib now data =
     and_then (getitem data ''prompt'') (\<lambda>p.
     and_then (getitem data ''version'') (\<lambda>v.
     and_then (getitem data ''function_name'') (\<lambda>f.
     and_then (dict_get data ''description'' PNone) (\<lambda>d.
     and_then (dict_get data ''tags'' (PList [])) (\<lambda>t.
     and_then (getitem data ''created_at'') (\<lambda>c.
     and_then (parse_created_at lib c) (\<lambda>created.
     and_then (dict_get data ''inputs'' (PDict [])) (\<lambda>i.
     and_then (dict_get data ''output'' PNone) (\<lambda>out.
     and_then (dict_get data ''execution_time'' PNone) (\<lambda>et.
     and_then (dict_get data ''execution_id'' PNone) (\<lambda>eid.
     PromptVersion_init lib now p v f d t (Some created) i out et eid)))))))))))"

section \<open>storage.py: the record store\<close>

text \<open>
  The storage directory exists and is the list of its files, in the order \<open>glob\<close> yields
  them. A file has a name, a modification time and the outcome of \<open>open\<close> and \<open>json.load\<close>
  on it: the parsed value, or the exception raised. The parser raises JSONDecodeError on
  text that is not JSON; the other exceptions are UnicodeDecodeError on bytes that are not
  text, ValueError on an integer literal of more than \<open>max_str_digits\<close> digits, RecursionError
  on nesting that is too deep, and OSError on a file that cannot be opened.
\<close>

datatype snapshot_file =
  File (file_name: string) (st_mtime: int) (json_load: "error + pyval")

type_synonym directory = "snapshot_file list"

type_synonym index = "(string \<times> PromptVersion) list"

definition endswith :: "string \<Rightarrow> string \<Rightarrow> bool" where
  "endswith s k = startswith (rev s) (rev k)"

definition matches_glob :: "string \<Rightarrow> bool" where
  \<comment> \<open>the pattern \<open>prompts_*.json\<close>\<close>
  "matches_glob n = (length n \<ge> 13 \<and> startswith n ''prompts_'' \<and> endswith n ''.json'')"

definition list_timestamped_files :: "directory \<Rightarrow> snapshot_file list" where
  \<comment> \<open>\<open>sorted(glob(...), key=st_mtime, reverse=True)\<close>: newest first, stable\<close>
  "list_timestamped_files d =
     sort_key (\<lambda>f. - st_mtime f) (filter (\<lambda>f. matches_glob (file_name f)) d)"

definition prompts_file :: "directory \<Rightarrow> snapshot_file option" where
  \<comment> \<open>the legacy file \<open>prompts.json\<close>, when it exists\<close>
  "prompts_file d = find (\<lambda>f. file_name f = ''prompts.json'') d"

fun dict_set :: "('k \<times> 'v) list \<Rightarrow> 'k \<Rightarrow> 'v \<Rightarrow> ('k \<times> 'v) list" where
  \<comment> \<open>\<open>d[k] = v\<close>: an existing key keeps its position, a new key goes last\<close>
  "dict_set [] k v = [(k, v)]"
| "dict_set ((k', v') # rest) k v =
     (if k' = k then (k, v) # rest else (k', v') # dict_set rest k v)"

fun load_items ::
  "pylib \<Rightarrow> datetime \<Rightarrow> (string \<times> pyval) list \<Rightarrow> index \<Rightarrow> index \<times> error option" where
  \<comment> \<open>\<open>for k, v in data.items(): self.prompts[k] = PromptVersion.from_dict(v)\<close>; an exception
      leaves the entries stored so far in place\<close>
  "load_items lib now [] ps = (ps, None)"
| "load_items lib now ((k, v) # rest) ps =
     (case from_dict lib now v of
        Inl e \<Rightarrow> (ps, Some e)
      | Inr pv \<Rightarrow> load_items lib now rest (dict_set ps k pv))"

definition load_file :: "pylib \<Rightarrow> datetime \<Rightarrow> snapshot_file \<Rightarrow> index \<Rightarrow> index \<times> error option" where
  \<comment> \<open>the body of one \<open>try\<close> block: \<open>json.load\<close>, then the loop over \<open>data.items()\<close>\<close>
  "load_file lib now f ps =
     (case json_load f of
        Inl e \<Rightarrow> (ps, Some e)
      | Inr data \<Rightarrow>
          (case data of
             PDict items \<Rightarrow> load_items lib now items ps
           | _ \<Rightarrow> (ps, Some (AttributeError ''items''))))"

definition caught :: "error \<Rightarrow> bool" where
  \<comment> \<open>\<open>except (json.JSONDecodeError, KeyError)\<close>\<close>
  "caught e = (case e of JSONDecodeError \<Rightarrow> True | KeyError k \<Rightarrow> True | _ \<Rightarrow> False)"

definition load_legacy :: "pylib \<Rightarrow> datetime \<Rightarrow> directory \<Rightarrow> index \<Rightarrow> error + index" where
  "load_legacy lib now d ps =
     (case prompts_file d of
        None \<Rightarrow> Inr ps
      | Some f \<Rightarrow>
          (case load_file lib now f ps of
             (ps', None) \<Rightarrow> Inr ps'
           | (ps', Some e) \<Rightarrow> if caught e then Inr [] else Inl e))"

definition load_prompts :: "pylib \<Rightarrow> datetime \<Rightarrow> directory \<Rightarrow> error + index" where
  "load_prompts lib now d =
     (case list_timestamped_files d of
        [] \<Rightarrow> load_legacy lib now d []
      | latest_file # _ \<Rightarrow>
          (case load_file lib now latest_file [] of
             (ps, None) \<Rightarrow> Inr ps
           | (ps, Some e) \<Rightarrow> if caught e then load_legacy lib now d ps else Inl e))"

record PromptStorage =
  source_filename :: string
  prompts :: index

definition PromptStorage_init ::
  "pylib \<Rightarrow> datetime \<Rightarrow> directory \<Rightarrow> string \<Rightarrow> error + PromptStorage" where
  "PromptStorage_init lib now d source =
     and_then (load_prompts lib now d) (\<lambda>ps. Inr \<lparr> source_filename = source, prompts = ps \<rparr>)"

definition project_version :: "PromptVersion \<Rightarrow> error + pyval" where
  \<comment> \<open>\<open>pv.project_version\<close>: the class sets no such attribute\<close>
  "project_version pv = Inl (AttributeError ''project_version'')"

definition agent_version :: "PromptVersion \<Rightarrow> error + pyval" where
  \<comment> \<open>\<open>pv.agent_version\<close>: the class sets no such attribute\<close>
  "agent_version pv = Inl (AttributeError ''agent_version'')"

fun write_file :: "directory \<Rightarrow> string \<Rightarrow> int \<Rightarrow> pyval \<Rightarrow> directory" where
  \<comment> \<open>\<open>open(name, 'w')\<close> and \<open>json.dump\<close>: create the file or replace its content\<close>
  "write_file [] n t data = [File n t (Inr data)]"
| "write_file (f # fs) n t data =
     (if file_name f = n then File n t (Inr data) # fs else f # write_file fs n t data)"

definition save_prompts :: "pylib \<Rightarrow> datetime \<Rightarrow> int \<Rightarrow> directory \<Rightarrow> PromptStorage \<Rightarrow> directory" where
  "save_prompts lib now t d self =
     (let data = PDict (map (\<lambda>(k, v). (k, PDict (to_dict lib v))) (prompts self));
          timestamp = strftime lib now;
          filename = ''prompts_'' @ source_filename self @ ''_'' @ timestamp @ ''.json''
      in write_file (write_file d filename t data) ''prompts.json'' t data)"

definition add_prompt ::
  "pylib \<Rightarrow> datetime \<Rightarrow> int \<Rightarrow> directory \<Rightarrow> PromptStorage \<Rightarrow> PromptVersion
     \<Rightarrow> error + (directory \<times> PromptStorage)" where
  \<comment> \<open>the key is built first; the store and the directory change only after that\<close>
  "add_prompt lib now t d self prompt_version =
     and_then (project_version prompt_version) (\<lambda>pj.
     and_then (agent_version prompt_version) (\<lambda>ag.
       let key = str_value lib (function_name prompt_version) @ ''_'' @ str_value lib pj
                   @ ''_'' @ str_value lib ag;
           self' = self \<lparr> prompts := dict_set (prompts self) key prompt_version \<rparr>
       in Inr (save_prompts lib now t d self', self')))"

definition get_prompt_by_combined_version ::
  "PromptStorage \<Rightarrow> string \<Rightarrow> string \<Rightarrow> PromptVersion option" where
  "get_prompt_by_combined_version self fname ver = map_of (prompts self) (fname @ ''_'' @ ver)"

fun keys_of :: "('a \<Rightarrow> error + 'k) \<Rightarrow> 'a list \<Rightarrow> error + ('k \<times> 'a) list" where
  "keys_of key [] = Inr []"
| "keys_of key (x # xs) =
     and_then (key x) (\<lambda>k. and_then (keys_of key xs) (\<lambda>r. Inr ((k, x) # r)))"

fun pick_max :: "'k::linorder \<times> 'a \<Rightarrow> ('k \<times> 'a) list \<Rightarrow> 'a" where
  "pick_max (k, x) [] = x"
| "pick_max (k, x) ((k', x') # r) = (if k < k' then pick_max (k', x') r else pick_max (k, x) r)"

definition py_max :: "('a \<Rightarrow> error + 'k::linorder) \<Rightarrow> 'a list \<Rightarrow> error + 'a" where
  \<comment> \<open>\<open>max(xs, key=key)\<close>: the first element with the greatest key; ValueError on \<open>[]\<close>\<close>
  "py_max key xs =
     and_then (keys_of key xs) (\<lambda>ks. case ks of [] \<Rightarrow> Inl ValueError | kx # r \<Rightarrow> Inr (pick_max kx r))"

definition versions_of :: "PromptStorage \<Rightarrow> string \<Rightarrow> PromptVersion list" where
  \<comment> \<open>\<open>[pv for pv in self.prompts.values() if pv.function_name == function_name]\<close>\<close>
  "versions_of self fname = filter (\<lambda>pv. function_name pv = PStr fname) (map snd (prompts self))"

definition agent_version_key :: "PromptVersion \<Rightarrow> error + int" where
  "agent_version_key x =
     and_then (agent_version x) (\<lambda>v. case v of PInt i \<Rightarrow> Inr i | _ \<Rightarrow> Inl TypeError)"

definition project_version_key :: "PromptVersion \<Rightarrow> error + (int \<times> int \<times> int)" where
  \<comment> \<open>\<open>self._parse_version(x.project_version)\<close>\<close>
  "project_version_key x =
     and_then (project_version x)
       (\<lambda>v. case v of PStr s \<Rightarrow> parse_version_parts s | _ \<Rightarrow> Inl (AttributeError ''split''))"

definition get_latest_version :: "PromptStorage \<Rightarrow> string \<Rightarrow> error + PromptVersion option" where
  "get_latest_version self fname =
     (let versions = versions_of self fname
      in if versions = [] then Inr None
         else and_then (py_max agent_version_key versions) (\<lambda>pv. Inr (Some pv)))"

definition get_latest_project_version ::
  "PromptStorage \<Rightarrow> string \<Rightarrow> error + PromptVersion option" where
  "get_latest_project_version self fname =
     (let versions = versions_of self fname
      in if versions = [] then Inr None
         else and_then (py_max project_version_key versions) (\<lambda>pv. Inr (Some pv)))"

section \<open>A concrete library instance\<close>

text \<open>
  A stand-in for the library functions on one date and one digest, for running the model
  on concrete inputs.
\<close>

definition example_now :: datetime where
  "example_now = \<lparr> year = 2024, month = 1, day = 1, hour = 0, minute = 0, second = 0,
     microsecond = 0 \<rparr>"

definition example_lib :: pylib where
  "example_lib = \<lparr>
     md5_hexdigest = (\<lambda>s. ''9e107d9d372bb6826bd81d3542a419d6''),
     isoformat = (\<lambda>d. ''2024-01-01T00:00:00''),
     fromisoformat = (\<lambda>s. if s = ''2024-01-01T00:00:00'' then Some example_now else None),
     strftime = (\<lambda>d. ''20240101_000000''),
     str_value = (\<lambda>v. case v of PStr s \<Rightarrow> s | _ \<Rightarrow> ''?'') \<rparr>"

definition example_record :: "string \<Rightarrow> PromptVersion" where
  \<comment> \<open>what \<open>PromptVersion(prompt="Summarize the text.", version=v, function_name="summarize")\<close>
      builds at \<open>example_now\<close>\<close>
  "example_record v = \<lparr>
     prompt = ''Summarize the text.'',
     version = PStr v,
     function_name = PStr ''summarize'',
     description = PStr [],
     tags = PList [],
     created_at = example_now,
     prompt_hash = ''9e107d9d'',
     inputs = PDict [],
     output_value = PNone,
     execution_time = PNone,
     execution_id = PStr ''20240101_000000_9e107d9d'' \<rparr>"

section \<open>Snapshot contents that the loader recovers from\<close>

definition entry_recoverable :: "pylib \<Rightarrow> pyval \<Rightarrow> bool" where
  \<comment> \<open>a record entry that is an object and either lacks one of the four required keys, or
      has a string prompt (of the modelled range) and a creation date that \<open>fromisoformat\<close>
      parses\<close>
  "entry_recoverable lib v =
     (case v of
        PDict e \<Rightarrow>
          (if map_of e ''prompt'' = None \<or> map_of e ''version'' = None
              \<or> map_of e ''function_name'' = None \<or> map_of e ''created_at'' = None
           then True
           else (case (map_of e ''prompt'', map_of e ''created_at'') of
                   (Some (PStr p), Some (PStr c)) \<Rightarrow> fromisoformat lib c \<noteq> None
                 | _ \<Rightarrow> False))
      | _ \<Rightarrow> False)"

definition file_recoverable :: "pylib \<Rightarrow> snapshot_file \<Rightarrow> bool" where
  \<comment> \<open>a file that the JSON parser rejects with JSONDecodeError, or a JSON object (a
      dictionary, so its keys are distinct) of such entries\<close>
  "file_recoverable lib f =
     (case json_load f of
        Inl e \<Rightarrow> e = JSONDecodeError
      | Inr data \<Rightarrow>
          (case data of
             PDict items \<Rightarrow>
               distinct (map fst items) \<and> list_all (\<lambda>kv. entry_recoverable lib (snd kv)) items
           | _ \<Rightarrow> False))"

definition loads_as :: "pylib \<Rightarrow> datetime \<Rightarrow> snapshot_file \<Rightarrow> index \<Rightarrow> bool" where
  \<comment> \<open>the file is a JSON object, and the index lists, key by key and in the order of the
      file, the record that \<open>from_dict\<close> builds from each entry\<close>
  "loads_as lib now f ix =
     (case json_load f of
        Inl e \<Rightarrow> False
      | Inr data \<Rightarrow>
          (case data of
             PDict items \<Rightarrow>
               list_all2 (\<lambda>kv kr. fst kr = fst kv \<and> from_dict lib now (snd kv) = Inr (snd kr))
                 items ix
           | _ \<Rightarrow> False))"

definition file_fails :: "pylib \<Rightarrow> datetime \<Rightarrow> snapshot_file \<Rightarrow> bool" where
  \<comment> \<open>reading the file raises: in the parser, or in \<open>from_dict\<close> on one of the entries\<close>
  "file_fails lib now f =
     (case json_load f of
        Inl e \<Rightarrow> True
      | Inr data \<Rightarrow>
          (case data of
             PDict items \<Rightarrow> list_ex (\<lambda>kv. isl (from_dict lib now (snd kv))) items
           | _ \<Rightarrow> True))"

definition legacy_gives :: "pylib \<Rightarrow> datetime \<Rightarrow> directory \<Rightarrow> index \<Rightarrow> bool" where
  \<comment> \<open>what the legacy file alone gives: nothing when it is absent or fails, its records
      otherwise\<close>
  "legacy_gives lib now d ix =
     (case prompts_file d of
        None \<Rightarrow> ix = []
      | Some l \<Rightarrow> if file_fails lib now l then ix = [] else loads_as lib now l ix)"

definition example_dir :: directory where
  \<comment> \<open>a legacy file with two records, the newest snapshot cut off before any JSON, and an
      older snapshot that nobody reads\<close>
  "example_dir =
     [File ''prompts.json'' 5
        (Inr (PDict [(''summarize_1.0.0'', PDict (to_dict example_lib (example_record ''1.0.0''))),
                     (''summarize_1.1.0'', PDict (to_dict example_lib (example_record ''1.1.0'')))])),
      File ''prompts_run_20240101_000000.json'' 7 (Inl JSONDecodeError),
      File ''prompts_run_20231231_000000.json'' 3 (Inr (PList []))]"

section \<open>decorators/chorus.py: the tracking wrapper\<close>

definition bump_from :: "PromptVersion \<Rightarrow> string \<Rightarrow> error + pyval" where
  \<comment> \<open>\<open>bump_version(current_version.version, analyze_prompt_changes(current_version.prompt,
      formatted_prompt))\<close>; \<open>version.split\<close> exists on a string only\<close>
  "bump_from current_version formatted_prompt =
     (let bump_type = analyze_prompt_changes (prompt current_version) formatted_prompt
      in case version current_version of
           PStr s \<Rightarrow> and_then (bump_version s bump_type) (\<lambda>w. Inr (PStr w))
         | _ \<Rightarrow> Inl (AttributeError ''split''))"

definition choose_version ::
  "string \<Rightarrow> bool \<Rightarrow> PromptVersion option \<Rightarrow> string \<Rightarrow> error + pyval" where
  "choose_version version_arg auto_version current_version formatted_prompt =
     (if version_arg = ''auto'' then
        (case current_version of
           Some cv \<Rightarrow> bump_from cv formatted_prompt
         | None \<Rightarrow> Inr (PStr ''1.0.0''))
      else
        (case current_version of
           Some cv \<Rightarrow>
             if auto_version then
               (if prompt cv \<noteq> formatted_prompt then bump_from cv formatted_prompt
                else Inr (version cv))
             else Inr (PStr version_arg)
         | None \<Rightarrow> Inr (PStr version_arg)))"

record tracked_call =
  func_name :: string
  extracted_prompt :: string
  formatted_prompt :: string
  source_file :: string
  bound_arguments :: pyval
  func_result :: "error + pyval"
  elapsed :: pyval

text \<open>
  One call of the wrapped function. What the collaborators hand to the wrapper is given:
  the prompt that \<open>extract_prompt_from_function\<close> returns (empty for none), the prompt
  after \<open>format\<close>, the stem of the source file, the bound arguments, what the function
  itself does (\<open>Inl\<close> the exception it raises, \<open>Inr\<close> its return value), and the elapsed
  time. The wrapper returns the directory after the call and what the caller sees.
\<close>

definition record_and_return ::
  "pylib \<Rightarrow> datetime \<Rightarrow> int \<Rightarrow> directory \<Rightarrow> PromptStorage \<Rightarrow> pyval \<Rightarrow> pyval \<Rightarrow> pyval
     \<Rightarrow> tracked_call \<Rightarrow> pyval \<Rightarrow> directory \<times> (error + pyval)" where
  \<comment> \<open>the statements after the \<open>try\<close> block: build the record, store it, return the output\<close>
  "record_and_return lib now t d storage new_version description_arg tags_arg call out =
     (case PromptVersion_init lib now (PStr (formatted_prompt call)) new_version
             (PStr (func_name call)) description_arg (py_or tags_arg (PList [])) None
             (bound_arguments call) out (elapsed call) PNone of
        Inl e \<Rightarrow> (d, Inl e)
      | Inr prompt_version \<Rightarrow>
          (case add_prompt lib now t d storage prompt_version of
             Inl e \<Rightarrow> (d, Inl e)
           | Inr (d', storage') \<Rightarrow> (d', Inr out)))"

definition run_tracked ::
  "pylib \<Rightarrow> datetime \<Rightarrow> int \<Rightarrow> directory \<Rightarrow> PromptStorage \<Rightarrow> pyval \<Rightarrow> pyval \<Rightarrow> pyval
     \<Rightarrow> tracked_call \<Rightarrow> directory \<times> (error + pyval)" where
  \<comment> \<open>the \<open>try\<close> block around \<open>func(*args, **kwargs)\<close>: the handler assigns the
      \<open>"ERROR: ..."\<close> text to \<open>output\<close> and re-raises with a bare \<open>raise\<close>\<close>
  "run_tracked lib now t d storage new_version description_arg tags_arg call =
     (case func_result call of
        Inl e \<Rightarrow> (d, Inl e)
      | Inr out \<Rightarrow> record_and_return lib now t d storage new_version description_arg tags_arg call out)"

definition wrapper ::
  "pylib \<Rightarrow> datetime \<Rightarrow> int \<Rightarrow> directory \<Rightarrow> string \<Rightarrow> pyval \<Rightarrow> pyval \<Rightarrow> bool
     \<Rightarrow> tracked_call \<Rightarrow> directory \<times> (error + pyval)" where
  "wrapper lib now t d version_arg description_arg tags_arg auto_version call =
     (if extracted_prompt call = [] then (d, func_result call)
      else
        (case PromptStorage_init lib now d (source_file call) of
           Inl e \<Rightarrow> (d, Inl e)
         | Inr storage \<Rightarrow>
             (case get_latest_version storage (func_name call) of
                Inl e \<Rightarrow> (d, Inl e)
              | Inr current_version \<Rightarrow>
                  (case choose_version version_arg auto_version current_version
                          (formatted_prompt call) of
                     Inl e \<Rightarrow> (d, Inl e)
                   | Inr new_version \<Rightarrow>
                       run_tracked lib now t d storage new_version description_arg tags_arg call))))"

definition failing_call :: tracked_call where
  \<comment> \<open>a tracked function \<open>summarize(text)\<close> that raises\<close>
  "failing_call = \<lparr>
     func_name = ''summarize'',
     extracted_prompt = ''Summarize the text: {text}'',
     formatted_prompt = ''Summarize the text: hello'',
     source_file = ''run'',
     bound_arguments = PDict [(''text'', PStr ''hello'')],
     func_result = Inl (Raised ''model unavailable''),
     elapsed = PFloat 0 \<rparr>"

section \<open>versioning.py: version validation\<close>

text \<open>
  The pattern of \<open>is_valid_version\<close> uses no back-reference and no look-around, and it is
  anchored at both ends: \<open>re.match\<close> succeeds exactly when the whole string belongs to the
  regular language of the pattern. The pattern is a value of \<open>rx\<close>, and membership is
  decided by derivatives. The class \<open>\d\<close> is \<open>isdecimal\<close>: on the modelled strings it is the
  digits 0..9, as \<open>[0-9]\<close> is.
\<close>

datatype rx =
    Never
  | Empty
  | Sym "char \<Rightarrow> bool"
  | Alt rx rx
  | Seq rx rx
  | Star rx

fun nullable :: "rx \<Rightarrow> bool" where
  "nullable Never = False"
| "nullable Empty = True"
| "nullable (Sym p) = False"
| "nullable (Alt r s) = (nullable r \<or> nullable s)"
| "nullable (Seq r s) = (nullable r \<and> nullable s)"
| "nullable (Star r) = True"

fun deriv :: "char \<Rightarrow> rx \<Rightarrow> rx" where
  "deriv c Never = Never"
| "deriv c Empty = Never"
| "deriv c (Sym p) = (if p c then Empty else Never)"
| "deriv c (Alt r s) = Alt (deriv c r) (deriv c s)"
| "deriv c (Seq r s) =
     (if nullable r then Alt (Seq (deriv c r) s) (deriv c s) else Seq (deriv c r) s)"
| "deriv c (Star r) = Seq (deriv c r) (Star r)"

fun matches :: "rx \<Rightarrow> string \<Rightarrow> bool" where
  "matches r [] = nullable r"
| "matches r (c # cs) = matches (deriv c r) cs"

definition Lit :: "char \<Rightarrow> rx" where
  "Lit c = Sym (\<lambda>x. x = c)"

definition Opt :: "rx \<Rightarrow> rx" where
  \<comment> \<open>\<open>(?:r)?\<close>\<close>
  "Opt r = Alt r Empty"

definition Plus :: "rx \<Rightarrow> rx" where
  \<comment> \<open>\<open>r+\<close>\<close>
  "Plus r = Seq r (Star r)"

definition nonzero_digit :: "char \<Rightarrow> bool" where
  \<comment> \<open>\<open>[1-9]\<close>\<close>
  "nonzero_digit c = (let n = code_point c in 49 \<le> n \<and> n \<le> 57)"

definition ascii_letter :: "char \<Rightarrow> bool" where
  \<comment> \<open>\<open>[a-zA-Z]\<close>\<close>
  "ascii_letter c = (let n = code_point c in (97 \<le> n \<and> n \<le> 122) \<or> (65 \<le> n \<and> n \<le> 90))"

definition letter_or_hyphen :: "char \<Rightarrow> bool" where
  \<comment> \<open>\<open>[a-zA-Z-]\<close>\<close>
  "letter_or_hyphen c = (ascii_letter c \<or> c = CHR ''-'')"

definition alnum_or_hyphen :: "char \<Rightarrow> bool" where
  \<comment> \<open>\<open>[0-9a-zA-Z-]\<close>\<close>
  "alnum_or_hyphen c = (isdecimal c \<or> ascii_letter c \<or> c = CHR ''-'')"

definition rx_numeric :: rx where
  \<comment> \<open>\<open>(0|[1-9]\d*)\<close>\<close>
  "rx_numeric = Alt (Lit CHR ''0'') (Seq (Sym nonzero_digit) (Star (Sym isdecimal)))"

definition rx_prerelease_id :: rx where
  \<comment> \<open>\<open>(?:0|[1-9]\d*|\d*[a-zA-Z-][0-9a-zA-Z-]*)\<close>\<close>
  "rx_prerelease_id =
     Alt (Lit CHR ''0'')
       (Alt (Seq (Sym nonzero_digit) (Star (Sym isdecimal)))
            (Seq (Star (Sym isdecimal)) (Seq (Sym letter_or_hyphen) (Star (Sym alnum_or_hyphen)))))"

definition rx_build_id :: rx where
  \<comment> \<open>\<open>[0-9a-zA-Z-]+\<close>\<close>
  "rx_build_id = Plus (Sym alnum_or_hyphen)"

definition rx_dotted :: "rx \<Rightarrow> rx" where
  \<comment> \<open>\<open>r(?:\.r)*\<close>\<close>
  "rx_dotted r = Seq r (Star (Seq (Lit CHR ''.'') r))"

definition semver_pattern :: rx where
  "semver_pattern =
     Seq rx_numeric (Seq (Lit CHR ''.'') (Seq rx_numeric (Seq (Lit CHR ''.'') (Seq rx_numeric
       (Seq (Opt (Seq (Lit CHR ''-'') (rx_dotted rx_prerelease_id)))
            (Opt (Seq (Lit CHR ''+'') (rx_dotted rx_build_id))))))))"

definition re_match :: "rx \<Rightarrow> string \<Rightarrow> bool" where
  \<comment> \<open>\<open>re.match('^r$', s)\<close>: \<open>$\<close> matches at the end, and also before a final newline\<close>
  "re_match r s =
     (if matches r s then True
      else (case rev s of [] \<Rightarrow> False | c # before \<Rightarrow> c = CHR 0x0A \<and> matches r (rev before)))"

definition is_valid_version :: "string \<Rightarrow> bool" where
  "is_valid_version version_arg =
     (if version_arg = [] then False else re_match semver_pattern (strip version_arg))"

section \<open>The semantic-version grammar of the specification\<close>

text \<open>
  The grammar \<open>MAJOR.MINOR.PATCH[-PRERELEASE][+BUILD]\<close> as the specification words it,
  written as a recogniser that cuts the string at the first \<open>+\<close>, cuts what is before it at
  the first \<open>-\<close>, and checks the dot-separated parts. A numeric identifier is a non-negative
  integer with no leading zero (except the literal 0); a pre-release or build identifier is
  a non-empty run of letters, digits and hyphens, and a pre-release identifier made of
  digits only is a numeric identifier.
\<close>

definition grammar_numeric :: "string \<Rightarrow> bool" where
  "grammar_numeric s =
     (case s of [] \<Rightarrow> False
      | c # cs \<Rightarrow> list_all isdecimal (c # cs) \<and> (if c = CHR ''0'' then cs = [] else True))"

definition grammar_build_identifier :: "string \<Rightarrow> bool" where
  "grammar_build_identifier s = (s \<noteq> [] \<and> list_all alnum_or_hyphen s)"

definition grammar_prerelease_identifier :: "string \<Rightarrow> bool" where
  "grammar_prerelease_identifier s =
     (s \<noteq> [] \<and> list_all alnum_or_hyphen s \<and>
      (if list_all isdecimal s then grammar_numeric s else True))"

definition cut_at :: "char \<Rightarrow> string \<Rightarrow> string \<times> string option" where
  \<comment> \<open>the text before the first \<open>c\<close>, and the text after it when there is one\<close>
  "cut_at c s =
     (case dropWhile (\<lambda>x. x \<noteq> c) s of
        [] \<Rightarrow> (s, None)
      | _ # rest \<Rightarrow> (takeWhile (\<lambda>x. x \<noteq> c) s, Some rest))"

definition grammar_core :: "string \<Rightarrow> bool" where
  "grammar_core s =
     (case split_on CHR ''.'' s of
        [a, b, c] \<Rightarrow> grammar_numeric a \<and> grammar_numeric b \<and> grammar_numeric c
      | _ \<Rightarrow> False)"

definition semver_grammar :: "string \<Rightarrow> bool" where
  "semver_grammar s =
     (case cut_at CHR ''+'' s of (main, build) \<Rightarrow>
      case cut_at CHR ''-'' main of (core, prerelease) \<Rightarrow>
        grammar_core core
        \<and> (case prerelease of None \<Rightarrow> True
            | Some p \<Rightarrow> list_all grammar_prerelease_identifier (split_on CHR ''.'' p))
        \<and> (case build of None \<Rightarrow> True
            | Some b \<Rightarrow> list_all grammar_build_identifier (split_on CHR ''.'' b)))"

section \<open>The language of a pattern\<close>

definition conc :: "string set \<Rightarrow> string set \<Rightarrow> string set" where
  "conc A B = {u @ v | u v. u \<in> A \<and> v \<in> B}"

inductive_set star :: "string set \<Rightarrow> string set" for A :: "string set" where
  star_nil: "[] \<in> star A"
| star_app: "u \<in> A \<Longrightarrow> v \<in> star A \<Longrightarrow> u @ v \<in> star A"

fun lang :: "rx \<Rightarrow> string set" where
  "lang Never = {}"
| "lang Empty = {[]}"
| "lang (Sym p) = {[c] | c. p c}"
| "lang (Alt r s) = lang r \<union> lang s"
| "lang (Seq r s) = conc (lang r) (lang s)"
| "lang (Star r) = star (lang r)"

section \<open>Character classes, by enumeration\<close>

text \<open>
  The character classes are defined by ranges of code points. The same classes, written
  as enumerations of characters, evaluate faster on concrete strings.
\<close>

lemma char_eq_code_point: "(c = d) = (code_point c = code_point d)"
  by (simp add: code_point_def)

lemma isspace_code [code]:
  "isspace c = (c \<in> set [CHR 0x09, CHR 0x0A, CHR 0x0B, CHR 0x0C, CHR 0x0D, CHR 0x1C,
     CHR 0x1D, CHR 0x1E, CHR 0x1F, CHR 0x20, CHR 0x85, CHR 0xA0])"
  unfolding isspace_def Let_def
  by (simp add: char_eq_code_point [of c]) (auto simp: code_point_def)

lemma lower_char_code [code]:
  "lower_char c = (if c \<in> set (''ABCDEFGHIJKLMNOPQRSTUVWXYZ'' @
        [CHR 0xC0, CHR 0xC1, CHR 0xC2, CHR 0xC3, CHR 0xC4, CHR 0xC5, CHR 0xC6, CHR 0xC7,
         CHR 0xC8, CHR 0xC9, CHR 0xCA, CHR 0xCB, CHR 0xCC, CHR 0xCD, CHR 0xCE, CHR 0xCF,
         CHR 0xD0, CHR 0xD1, CHR 0xD2, CHR 0xD3, CHR 0xD4, CHR 0xD5, CHR 0xD6,
         CHR 0xD8, CHR 0xD9, CHR 0xDA, CHR 0xDB, CHR 0xDC, CHR 0xDD, CHR 0xDE])
     then char_of (code_point c + 32) else c)"
proof -
  let ?n = "code_point c"
  have "(c \<in> set (''ABCDEFGHIJKLMNOPQRSTUVWXYZ'' @
        [CHR 0xC0, CHR 0xC1, CHR 0xC2, CHR 0xC3, CHR 0xC4, CHR 0xC5, CHR 0xC6, CHR 0xC7,
         CHR 0xC8, CHR 0xC9, CHR 0xCA, CHR 0xCB, CHR 0xCC, CHR 0xCD, CHR 0xCE, CHR 0xCF,
         CHR 0xD0, CHR 0xD1, CHR 0xD2, CHR 0xD3, CHR 0xD4, CHR 0xD5, CHR 0xD6,
         CHR 0xD8, CHR 0xD9, CHR 0xDA, CHR 0xDB, CHR 0xDC, CHR 0xDD, CHR 0xDE]))
       = ((65 \<le> ?n \<and> ?n \<le> 90) \<or> (192 \<le> ?n \<and> ?n \<le> 222 \<and> ?n \<noteq> 215))"
    by (simp add: char_eq_code_point [of c]) (simp add: code_point_def, arith)
  then show ?thesis
    unfolding lower_char_def Let_def by simp
qed

section \<open>Properties of the version arithmetic\<close>

lemma code_point_digit_char: "d < 10 \<Longrightarrow> code_point (digit_char d) = 48 + d"
  by (simp add: code_point_def digit_char_def)

lemma digit_char_not_sign:
  assumes "d < 10"
  shows "digit_char d \<noteq> CHR ''-'' \<and> digit_char d \<noteq> CHR ''+''"
proof -
  have "code_point (digit_char d) \<noteq> code_point CHR ''-''"
    and "code_point (digit_char d) \<noteq> code_point CHR ''+''"
    using assms by (simp_all add: code_point_digit_char) (simp_all add: code_point_def)
  then show ?thesis by auto
qed

lemma digits_of_no_sign: "CHR ''-'' \<notin> set (digits_of n) \<and> CHR ''+'' \<notin> set (digits_of n)"
proof (induction n rule: digits_of.induct)
  case (1 n)
  show ?case
  proof (cases "n < 10")
    case True
    then show ?thesis using digit_char_not_sign [of n]
      by (auto simp: digits_of.simps [of n])
  next
    case False
    with 1 show ?thesis using digit_char_not_sign [of "n mod 10"]
      by (auto simp: digits_of.simps [of n])
  qed
qed

lemma foldl_digits_nonneg:
  "0 \<le> a \<Longrightarrow> list_all isdecimal s \<Longrightarrow> 0 \<le> foldl (\<lambda>a c. 10 * a + digit_value c) a s"
  by (induction s arbitrary: a) (auto simp: isdecimal_def digit_value_def Let_def)

lemma py_int_nonneg: "py_int s = Inr n \<Longrightarrow> 0 \<le> n"
  by (auto simp: py_int_def foldl_digits_nonneg split: if_splits)

lemma version_part_nonneg: "version_part parts i = Inr n \<Longrightarrow> 0 \<le> n"
  by (auto simp: version_part_def py_int_nonneg split: if_splits)

lemma parse_version_parts_nonneg:
  "parse_version_parts v = Inr (a, b, c) \<Longrightarrow> 0 \<le> a \<and> 0 \<le> b \<and> 0 \<le> c"
  by (auto simp: parse_version_parts_def Let_def version_part_nonneg split: sum.splits)

text \<open>
  Claim C5. \<open>parse_version_parts\<close> is claimed to be total: three integers for every input
  string, never a failure. The guard in front of each \<open>int(...)\<close> is \<open>str.isdigit\<close>, which
  also holds for the superscript digits, and \<open>int\<close> rejects those: on the one-character
  string U+00B2 the function raises ValueError.
\<close>

theorem parse_version_parts_superscript:
  "parse_version_parts [CHR 0xB2] = Inl ValueError"
  by code_simp

section \<open>Properties of the version bump\<close>

lemma max_str_digits_pos: "0 < max_str_digits"
  by (simp add: max_str_digits_def)

lemma digits_of_length_lower: "10 ^ k \<le> n \<Longrightarrow> k < length (digits_of n)"
proof (induction k arbitrary: n)
  case 0
  show ?case by (simp add: digits_of.simps [of n])
next
  case (Suc k)
  have "(1::nat) \<le> 10 ^ k" by simp
  then have "(10::nat) * 1 \<le> 10 * 10 ^ k" by (rule mult_le_mono2)
  also have "\<dots> \<le> n" using Suc.prems by simp
  finally have "10 \<le> n" by simp
  then have n: "\<not> n < 10" by simp
  have d: "10 ^ k \<le> n div 10" using Suc.prems by auto
  from Suc.IH [OF d] show ?case using n by (simp add: digits_of.simps [of n])
qed

lemma digits_of_length_upper: "n < 10 ^ k \<Longrightarrow> 0 < k \<Longrightarrow> length (digits_of n) \<le> k"
proof (induction k arbitrary: n)
  case 0
  then show ?case by simp
next
  case (Suc k)
  show ?case
  proof (cases "n < 10")
    case True
    then show ?thesis by (simp add: digits_of.simps [of n])
  next
    case False
    then have k: "0 < k" using Suc.prems(1) by (cases k) auto
    have "n div 10 < 10 ^ k" using Suc.prems(1) by auto
    from Suc.IH [OF this k] show ?thesis using False by (simp add: digits_of.simps [of n])
  qed
qed

lemma digit_value_range: "isdecimal c \<Longrightarrow> 0 \<le> digit_value c \<and> digit_value c \<le> 9"
  by (auto simp: isdecimal_def digit_value_def Let_def)

lemma foldl_digits_bound:
  "0 \<le> a \<Longrightarrow> list_all isdecimal s \<Longrightarrow>
     foldl (\<lambda>a c. 10 * a + digit_value c) a s < (a + 1) * 10 ^ length s"
proof (induction s arbitrary: a)
  case Nil
  then show ?case by simp
next
  case (Cons c s)
  then have c: "0 \<le> digit_value c" "digit_value c \<le> 9" and s: "list_all isdecimal s"
    using digit_value_range [of c] by simp_all
  have a': "0 \<le> 10 * a + digit_value c" using Cons.prems(1) c by simp
  have "foldl (\<lambda>a c. 10 * a + digit_value c) (10 * a + digit_value c) s
          < (10 * a + digit_value c + 1) * 10 ^ length s"
    by (rule Cons.IH [OF a' s])
  also have "\<dots> \<le> (10 * (a + 1)) * 10 ^ length s"
    using c by (intro mult_right_mono) simp_all
  also have "\<dots> = (a + 1) * 10 ^ length (c # s)" by (simp add: algebra_simps)
  finally show ?case by simp
qed

lemma py_int_bound: "py_int s = Inr n \<Longrightarrow> n < 10 ^ max_str_digits"
proof -
  assume a: "py_int s = Inr n"
  then have d: "list_all isdecimal s" and l: "length s \<le> max_str_digits"
    and n: "n = foldl (\<lambda>a c. 10 * a + digit_value c) 0 s"
    by (auto simp: py_int_def split: if_splits)
  have "n < (10::int) ^ length s"
    using foldl_digits_bound [of 0 s] d n by simp
  also have "(10::int) ^ length s \<le> 10 ^ max_str_digits"
    using l by (intro power_increasing) simp_all
  finally show ?thesis .
qed

lemma version_part_bound: "version_part parts i = Inr n \<Longrightarrow> n < 10 ^ max_str_digits"
  by (auto simp: version_part_def py_int_bound split: if_splits)

lemma parse_version_parts_bound:
  "parse_version_parts v = Inr (a, b, c) \<Longrightarrow>
     a < 10 ^ max_str_digits \<and> b < 10 ^ max_str_digits \<and> c < 10 ^ max_str_digits"
  by (auto simp: parse_version_parts_def Let_def version_part_bound split: sum.splits)

lemma py_str_within:
  assumes "0 \<le> i" and "i < 10 ^ max_str_digits"
  shows "py_str i = Inr (decimal i)"
proof -
  have "nat \<bar>i\<bar> < 10 ^ max_str_digits"
    using assms by (simp add: nat_less_iff)
  then have "length (digits_of (nat \<bar>i\<bar>)) \<le> max_str_digits"
    by (rule digits_of_length_upper) (rule max_str_digits_pos)
  then show ?thesis by (simp add: py_str_def)
qed

lemma py_str_beyond:
  assumes "10 ^ max_str_digits \<le> i"
  shows "py_str i = Inl ValueError"
proof -
  have "10 ^ max_str_digits \<le> nat \<bar>i\<bar>"
    using assms by (simp add: le_nat_iff)
  then have "max_str_digits < length (digits_of (nat \<bar>i\<bar>))"
    by (rule digits_of_length_lower)
  then show ?thesis by (simp add: py_str_def)
qed

lemma py_str_cases:
  "0 \<le> i \<Longrightarrow>
     py_str i = (if i < 10 ^ max_str_digits then Inr (decimal i) else Inl ValueError)"
  using py_str_within [of i] py_str_beyond [of i] by auto

lemma decimal_no_sign:
  "0 \<le> i \<Longrightarrow> CHR ''-'' \<notin> set (decimal i) \<and> CHR ''+'' \<notin> set (decimal i)"
  using digits_of_no_sign by (simp add: decimal_def)

lemma foldl_nines:
  "foldl (\<lambda>a c. 10 * a + digit_value c) a (replicate n CHR ''9'') = (a + 1) * 10 ^ n - 1"
proof (induction n arbitrary: a)
  case 0
  show ?case by simp
next
  case (Suc n)
  have dv: "digit_value CHR ''9'' = 9" by (simp add: digit_value_def code_point_def)
  have "foldl (\<lambda>a c. 10 * a + digit_value c) a (replicate (Suc n) CHR ''9'')
          = foldl (\<lambda>a c. 10 * a + digit_value c) (10 * a + 9) (replicate n CHR ''9'')"
    by (simp add: dv)
  also have "\<dots> = (10 * a + 9 + 1) * 10 ^ n - 1" by (rule Suc)
  also have "\<dots> = (a + 1) * 10 ^ Suc n - 1" by (simp add: algebra_simps)
  finally show ?case .
qed

lemma nines_one_part:
  assumes "c \<noteq> CHR ''9''"
  shows "split_on c (replicate n CHR ''9'') = [replicate n CHR ''9'']"
  using assms by (induction n) auto

lemma parse_nines:
  "parse_version_parts (replicate max_str_digits CHR ''9'') = Inr (10 ^ max_str_digits - 1, 0, 0)"
proof -
  let ?v = "replicate max_str_digits CHR ''9''"
  have ne: "?v \<noteq> []" using max_str_digits_pos by simp
  have nine: "isdecimal CHR ''9''" by (simp add: isdecimal_def code_point_def)
  have dec: "list_all isdecimal ?v" by (simp add: list_all_iff nine)
  have dig: "isdigit ?v"
    using ne nine by (simp add: isdigit_def isdigit_char_def isdecimal_def list_all_iff Let_def)
  have "py_int ?v = Inr (10 ^ max_str_digits - 1)"
    using ne dec by (simp add: py_int_def foldl_nines)
  then have p0: "version_part [?v] 0 = Inr (10 ^ max_str_digits - 1)"
    using dig by (simp add: version_part_def)
  have p1: "version_part [?v] (Suc 0) = Inr 0" "version_part [?v] 2 = Inr 0"
    by (simp_all add: version_part_def)
  show ?thesis
    unfolding parse_version_parts_def
    by (simp add: nines_one_part index0_def Let_def p0 p1 del: replicate_eq_replicate)
qed

lemma bump_nines:
  "bump_version (replicate max_str_digits CHR ''9'') ''major'' = Inl ValueError"
proof -
  have "py_str (10 ^ max_str_digits - 1 + 1) = Inl ValueError"
    by (rule py_str_beyond) simp
  then show ?thesis by (simp add: bump_version_def parse_nines)
qed

text \<open>
  Claim C6, as stated: for every version string that parses to \<open>(major, minor, patch)\<close> the
  bump returns the formatted next version. The version of 4300 nines parses, and its major
  bump is a number of 4301 digits, which the f-string cannot convert: the call raises
  ValueError.
\<close>

theorem bump_version_digit_limit:
  "parse_version_parts (replicate 4300 CHR ''9'') = Inr (10 ^ 4300 - 1, 0, 0)
   \<and> bump_version (replicate 4300 CHR ''9'') ''major'' = Inl ValueError"
  using parse_nines bump_nines unfolding max_str_digits_def by (rule conjI)

text \<open>
  Claim C6, amended. For a version string that parses to \<open>(major, minor, patch)\<close>,
  \<open>bump_version\<close> returns \<open>{major+1}.0.0\<close> for the kind \<open>major\<close>, \<open>{major}.{minor+1}.0\<close> for
  \<open>minor\<close>, and \<open>{major}.{minor}.{patch+1}\<close> for every other kind, as long as the component
  it increments stays below \<open>10 ^ 4300\<close>; when the incremented component reaches
  \<open>10 ^ 4300\<close> the call raises ValueError. A result carries no pre-release or build marker,
  and the four bumps of \<open>1.2.3\<close> give \<open>2.0.0\<close>, \<open>1.3.0\<close>, \<open>1.2.4\<close>, \<open>1.2.4\<close>.
\<close>

theorem bump_version_formula:
  assumes "parse_version_parts v = Inr (major, minor, patch)"
  shows "bump_version v ''major'' =
           (if major + 1 < 10 ^ max_str_digits then Inr (decimal (major + 1) @ ''.0.0'')
            else Inl ValueError)
       \<and> bump_version v ''minor'' =
           (if minor + 1 < 10 ^ max_str_digits
            then Inr (decimal major @ ''.'' @ decimal (minor + 1) @ ''.0'')
            else Inl ValueError)
       \<and> (if k \<noteq> ''major'' \<and> k \<noteq> ''minor''
          then bump_version v k =
            (if patch + 1 < 10 ^ max_str_digits
             then Inr (decimal major @ ''.'' @ decimal minor @ ''.'' @ decimal (patch + 1))
             else Inl ValueError)
          else True)
       \<and> (case bump_version v k of
            Inl e \<Rightarrow> e = ValueError
          | Inr w \<Rightarrow> CHR ''-'' \<notin> set w \<and> CHR ''+'' \<notin> set w)
       \<and> bump_version ''1.2.3'' ''major'' = Inr ''2.0.0''
       \<and> bump_version ''1.2.3'' ''minor'' = Inr ''1.3.0''
       \<and> bump_version ''1.2.3'' ''patch'' = Inr ''1.2.4''
       \<and> bump_version ''1.2.3'' ''junk'' = Inr ''1.2.4''"
proof -
  have nn: "0 \<le> major" "0 \<le> minor" "0 \<le> patch"
    using parse_version_parts_nonneg [OF assms] by simp_all
  have bd: "major < 10 ^ max_str_digits" "minor < 10 ^ max_str_digits"
    using parse_version_parts_bound [OF assms] by simp_all
  have s1: "py_str major = Inr (decimal major)" "py_str minor = Inr (decimal minor)"
    using nn bd by (simp_all add: py_str_within)
  have s2: "py_str (major + 1) =
      (if major + 1 < 10 ^ max_str_digits then Inr (decimal (major + 1)) else Inl ValueError)"
    "py_str (minor + 1) =
      (if minor + 1 < 10 ^ max_str_digits then Inr (decimal (minor + 1)) else Inl ValueError)"
    "py_str (patch + 1) =
      (if patch + 1 < 10 ^ max_str_digits then Inr (decimal (patch + 1)) else Inl ValueError)"
    using nn by (simp_all add: py_str_cases)
  have a: "bump_version v ''major'' =
           (if major + 1 < 10 ^ max_str_digits then Inr (decimal (major + 1) @ ''.0.0'')
            else Inl ValueError)"
    using assms by (simp add: bump_version_def s2)
  have b: "bump_version v ''minor'' =
           (if minor + 1 < 10 ^ max_str_digits
            then Inr (decimal major @ ''.'' @ decimal (minor + 1) @ ''.0'')
            else Inl ValueError)"
    using assms by (simp add: bump_version_def s1 s2)
  have c: "k \<noteq> ''major'' \<and> k \<noteq> ''minor'' \<Longrightarrow> bump_version v k =
            (if patch + 1 < 10 ^ max_str_digits
             then Inr (decimal major @ ''.'' @ decimal minor @ ''.'' @ decimal (patch + 1))
             else Inl ValueError)"
    using assms by (simp add: bump_version_def s1 s2)
  have ns: "CHR ''-'' \<notin> set (decimal major) \<and> CHR ''+'' \<notin> set (decimal major)"
    "CHR ''-'' \<notin> set (decimal minor) \<and> CHR ''+'' \<notin> set (decimal minor)"
    "CHR ''-'' \<notin> set (decimal (major + 1)) \<and> CHR ''+'' \<notin> set (decimal (major + 1))"
    "CHR ''-'' \<notin> set (decimal (minor + 1)) \<and> CHR ''+'' \<notin> set (decimal (minor + 1))"
    "CHR ''-'' \<notin> set (decimal (patch + 1)) \<and> CHR ''+'' \<notin> set (decimal (patch + 1))"
    using nn by (simp_all add: decimal_no_sign)
  have d: "case bump_version v k of
            Inl e \<Rightarrow> e = ValueError
          | Inr w \<Rightarrow> CHR ''-'' \<notin> set w \<and> CHR ''+'' \<notin> set w"
  proof (cases "k = ''major''")
    case True
    then show ?thesis using a ns by simp
  next
    case False
    show ?thesis
    proof (cases "k = ''minor''")
      case True
      then show ?thesis using b ns by simp
    next
      case nm: False
      then show ?thesis using c False ns by simp
    qed
  qed
  have e1: "bump_version ''1.2.3'' ''major'' = Inr ''2.0.0''" by code_simp
  have e2: "bump_version ''1.2.3'' ''minor'' = Inr ''1.3.0''" by code_simp
  have e3: "bump_version ''1.2.3'' ''patch'' = Inr ''1.2.4''" by code_simp
  have e4: "bump_version ''1.2.3'' ''junk'' = Inr ''1.2.4''" by code_simp
  from a b c d e1 e2 e3 e4 show ?thesis by simp
qed

theorem bump_version_formula_witness:
  "parse_version_parts ''1.2.3-alpha+001'' = Inr (1, 2, 3)
   \<and> bump_version ''1.2.3-alpha+001'' ''major'' = Inr ''2.0.0''
   \<and> bump_version ''1.2.3-alpha+001'' ''minor'' = Inr ''1.3.0''
   \<and> bump_version ''1.2.3-alpha+001'' ''junk'' = Inr ''1.2.4''"
proof -
  have h: "parse_version_parts ''1.2.3-alpha+001'' = Inr (1, 2, 3)" by code_simp
  have lim: "(1::int) + 1 < 10 ^ max_str_digits" "(2::int) + 1 < 10 ^ max_str_digits"
    "(3::int) + 1 < 10 ^ max_str_digits"
    using parse_version_parts_bound [OF h] power_increasing [of 1 max_str_digits "10::int"]
      max_str_digits_pos by simp_all
  have s1: "decimal (1 + 1) @ ''.0.0'' = ''2.0.0''" by code_simp
  have s2: "decimal 1 @ ''.'' @ decimal (2 + 1) @ ''.0'' = ''1.3.0''" by code_simp
  have s3: "decimal 1 @ ''.'' @ decimal 2 @ ''.'' @ decimal (3 + 1) = ''1.2.4''" by code_simp
  have k: "''junk'' \<noteq> ''major'' \<and> ''junk'' \<noteq> ''minor''" by simp
  show ?thesis
    using bump_version_formula [OF h, of "''junk''"] h lim s1 s2 s3 k by simp
qed

section \<open>Properties of the change classifier\<close>

lemma new_only_same: "\<not> new_only ks p p"
  by (simp add: new_only_def list_ex_iff)

lemma is_major_change_same: "\<not> is_major_change p p"
proof -
  have "\<not> sentence_ratio_major p p" by (simp add: sentence_ratio_major_def)
  moreover have "\<not> similarity_major p p" by (simp add: similarity_major_def Let_def)
  moreover have "\<not> length_ratio_major p p" by (simp add: length_ratio_major_def)
  ultimately show ?thesis by (simp add: is_major_change_def new_only_same)
qed

lemma is_minor_change_same: "\<not> is_minor_change p p"
  by (simp add: is_minor_change_def new_only_same)

text \<open>
  Claim C10. Two prompts with the same normalized form (whitespace runs collapsed,
  trimmed, lower-cased) are classified as \<open>patch\<close>, also when the raw texts differ.
\<close>

theorem analyze_equal_normal_forms_patch:
  "normalize_prompt old_prompt = normalize_prompt new_prompt \<Longrightarrow>
     analyze_prompt_changes old_prompt new_prompt = ''patch''"
  by (simp add: analyze_prompt_changes_def Let_def is_major_change_same is_minor_change_same)

theorem analyze_equal_normal_forms_patch_witness:
  "''Hello  World'' \<noteq> ''hello world''
   \<and> normalize_prompt ''Hello  World'' = normalize_prompt ''hello world''
   \<and> analyze_prompt_changes ''Hello  World'' ''hello world'' = ''patch''"
proof -
  have h: "normalize_prompt ''Hello  World'' = normalize_prompt ''hello world''" by code_simp
  show ?thesis using analyze_equal_normal_forms_patch [OF h] h by simp
qed

lemma startswith_append: "startswith s k \<Longrightarrow> startswith (s @ t) k"
  by (induction s k rule: startswith.induct) (auto split: if_splits)

lemma contains_append: "contains k s \<Longrightarrow> contains k (p @ s)"
  by (induction p) auto

lemma collapse_ws_keeps_tail:
  "\<not> isspace a \<Longrightarrow> \<exists>p. collapse_ws (xs @ a # ys) = p @ collapse_ws (a # ys)"
proof (induction xs rule: collapse_ws.induct)
  case 1
  show ?case by simp
next
  case (2 c cs)
  show ?case
  proof (cases "isspace c")
    case True
    have "dropWhile isspace (cs @ a # ys) = dropWhile isspace cs @ a # ys"
      using 2(3) by (simp add: dropWhile_append3)
    moreover obtain p where "collapse_ws (dropWhile isspace cs @ a # ys) = p @ collapse_ws (a # ys)"
      using 2(1) [OF True 2(3)] by blast
    ultimately have "collapse_ws ((c # cs) @ a # ys) = (CHR '' '' # p) @ collapse_ws (a # ys)"
      using True by simp
    then show ?thesis by blast
  next
    case False
    obtain p where "collapse_ws (cs @ a # ys) = p @ collapse_ws (a # ys)"
      using 2(2) [OF False 2(3)] by blast
    then have "collapse_ws ((c # cs) @ a # ys) = (c # p) @ collapse_ws (a # ys)"
      using False by simp
    then show ?thesis by blast
  qed
qed

lemma strip_keeps_tail:
  assumes "\<not> isspace a" and "\<not> isspace (last (a # ys))"
  shows "\<exists>q. strip (xs @ a # ys) = q @ a # ys"
proof -
  let ?t = "dropWhile isspace xs @ a # ys"
  have t: "dropWhile isspace (xs @ a # ys) = ?t"
    using assms(1) by (simp add: dropWhile_append3)
  have "rev ?t \<noteq> []" by simp
  moreover have "hd (rev ?t) = last (a # ys)"
    by (simp add: hd_rev)
  ultimately have "dropWhile isspace (rev ?t) = rev ?t"
    using assms(2) by (cases "rev ?t") auto
  then have "strip (xs @ a # ys) = ?t"
    by (simp add: strip_def t)
  then show ?thesis by blast
qed

lemma normalize_appended:
  "\<exists>p. normalize_prompt (old @ '' Also supports new optional retries.'')
        = p @ ''also supports new optional retries.''"
proof -
  let ?a = "CHR ''A''" and ?ys = "''lso supports new optional retries.''"
  have sp: "\<not> isspace ?a" by code_simp
  have la: "\<not> isspace (last (?a # ?ys))" by code_simp
  have eq: "old @ '' Also supports new optional retries.'' = (old @ '' '') @ ?a # ?ys" by simp
  obtain q where q: "strip ((old @ '' '') @ ?a # ?ys) = q @ ?a # ?ys"
    using strip_keeps_tail [OF sp la] by blast
  obtain p where p: "collapse_ws (q @ ?a # ?ys) = p @ collapse_ws (?a # ?ys)"
    using collapse_ws_keeps_tail [OF sp] by blast
  have c: "collapse_ws (?a # ?ys) = ?a # ?ys" by code_simp
  have l: "lower (?a # ?ys) = ''also supports new optional retries.''" by code_simp
  have "normalize_prompt (old @ '' Also supports new optional retries.'')
          = lower p @ lower (?a # ?ys)"
    unfolding normalize_prompt_def eq q p c by (simp add: lower_def)
  then show ?thesis unfolding l by blast
qed

lemma appended_keywords:
  "contains ''also'' (normalize_prompt (old @ '' Also supports new optional retries.''))"
  "contains ''new'' (normalize_prompt (old @ '' Also supports new optional retries.''))"
  "contains ''option'' (normalize_prompt (old @ '' Also supports new optional retries.''))"
proof -
  obtain p where p: "normalize_prompt (old @ '' Also supports new optional retries.'')
        = p @ ''also supports new optional retries.''"
    using normalize_appended by blast
  have "contains ''also'' ''also supports new optional retries.''" by code_simp
  then show "contains ''also'' (normalize_prompt (old @ '' Also supports new optional retries.''))"
    unfolding p by (rule contains_append)
  have "contains ''new'' ''also supports new optional retries.''" by code_simp
  then show "contains ''new'' (normalize_prompt (old @ '' Also supports new optional retries.''))"
    unfolding p by (rule contains_append)
  have "contains ''option'' ''also supports new optional retries.''" by code_simp
  then show "contains ''option'' (normalize_prompt (old @ '' Also supports new optional retries.''))"
    unfolding p by (rule contains_append)
qed

lemma feature_keywords_mem:
  "''also'' \<in> set feature_keywords" "''new'' \<in> set feature_keywords"
  "''option'' \<in> set feature_keywords"
  by (simp_all add: feature_keywords_def)

text \<open>
  Claim C9, as stated: for every string \<open>old\<close>, appending
  \<open>" Also supports new optional retries."\<close> is classified as \<open>minor\<close>. It fails in both
  directions. On the empty prompt the sentence count doubles, which is a major change.
  On a long prompt that already contains \<open>also\<close>, \<open>new\<close> and \<open>option\<close> no feature keyword
  is new and no threshold is reached, so the result is \<open>patch\<close>.
\<close>

theorem analyze_appended_not_always_minor:
  "analyze_prompt_changes '''' ('''' @ '' Also supports new optional retries.'') = ''major''
   \<and> analyze_prompt_changes
        ''You are a careful reviewer. Also list every new option that the author left undocumented, and explain briefly why each one matters to the reader.''
        (''You are a careful reviewer. Also list every new option that the author left undocumented, and explain briefly why each one matters to the reader.''
           @ '' Also supports new optional retries.'') = ''patch''"
proof -
  have a: "analyze_prompt_changes '''' ('''' @ '' Also supports new optional retries.'') = ''major''"
    by code_simp
  have b: "analyze_prompt_changes
        ''You are a careful reviewer. Also list every new option that the author left undocumented, and explain briefly why each one matters to the reader.''
        (''You are a careful reviewer. Also list every new option that the author left undocumented, and explain briefly why each one matters to the reader.''
           @ '' Also supports new optional retries.'') = ''patch''"
    by code_simp
  from a b show ?thesis by simp
qed

text \<open>
  Claim C9, amended: appending \<open>" Also supports new optional retries."\<close> is classified as
  \<open>minor\<close> for every \<open>old\<close> on which no major condition fires and whose normalized text
  does not already contain all three of \<open>also\<close>, \<open>new\<close> and \<open>option\<close>. The appended text
  always brings these three feature keywords into the normalized new prompt.
\<close>

theorem analyze_appended_feature_minor:
  assumes "\<not> is_major_change (normalize_prompt old)
                (normalize_prompt (old @ '' Also supports new optional retries.''))"
    and "\<not> (contains ''also'' (normalize_prompt old) \<and> contains ''new'' (normalize_prompt old)
           \<and> contains ''option'' (normalize_prompt old))"
  shows "analyze_prompt_changes old (old @ '' Also supports new optional retries.'') = ''minor''"
proof -
  let ?n = "normalize_prompt (old @ '' Also supports new optional retries.'')"
  have "\<exists>k \<in> set feature_keywords. contains k ?n \<and> \<not> contains k (normalize_prompt old)"
    using assms(2) appended_keywords [of old] feature_keywords_mem by blast
  then have "new_only feature_keywords (normalize_prompt old) ?n"
    by (simp add: new_only_def list_ex_iff)
  then have "is_minor_change (normalize_prompt old) ?n"
    by (simp add: is_minor_change_def)
  then show ?thesis
    using assms(1) by (simp add: analyze_prompt_changes_def Let_def)
qed

theorem analyze_appended_feature_minor_witness:
  "analyze_prompt_changes ''Summarize the following text in three short bullet points.''
     (''Summarize the following text in three short bullet points.''
        @ '' Also supports new optional retries.'') = ''minor''"
proof -
  have n: "normalize_prompt ''Summarize the following text in three short bullet points.''
             = ''summarize the following text in three short bullet points.''"
    by code_simp
  have h1: "\<not> is_major_change
              (normalize_prompt ''Summarize the following text in three short bullet points.'')
              (normalize_prompt (''Summarize the following text in three short bullet points.''
                 @ '' Also supports new optional retries.''))"
    by code_simp
  have "\<not> contains ''also'' ''summarize the following text in three short bullet points.''"
    by code_simp
  then have h2: "\<not> (contains ''also'' (normalize_prompt ''Summarize the following text in three short bullet points.'')
      \<and> contains ''new'' (normalize_prompt ''Summarize the following text in three short bullet points.'')
      \<and> contains ''option'' (normalize_prompt ''Summarize the following text in three short bullet points.''))"
    unfolding n by simp
  show ?thesis by (rule analyze_appended_feature_minor [OF h1 h2])
qed

section \<open>Properties of the version record\<close>

lemma and_then_Inr [simp]: "and_then (Inr x) f = f x"
  by (simp add: and_then_def)

lemma and_then_Inl [simp]: "and_then (Inl e) f = Inl e"
  by (simp add: and_then_def)

lemma py_or_idem: "py_or (py_or x y) y = py_or x y"
  by (simp add: py_or_def)

lemma map_of_to_dict:
  "map_of (to_dict lib r) ''prompt'' = Some (PStr (prompt r))"
  "map_of (to_dict lib r) ''version'' = Some (version r)"
  "map_of (to_dict lib r) ''function_name'' = Some (function_name r)"
  "map_of (to_dict lib r) ''description'' = Some (description r)"
  "map_of (to_dict lib r) ''tags'' = Some (tags r)"
  "map_of (to_dict lib r) ''created_at'' = Some (PStr (isoformat lib (created_at r)))"
  "map_of (to_dict lib r) ''inputs'' = Some (inputs r)"
  "map_of (to_dict lib r) ''output'' = Some (output_value r)"
  "map_of (to_dict lib r) ''execution_time'' = Some (execution_time r)"
  "map_of (to_dict lib r) ''execution_id'' = Some (execution_id r)"
  by (simp_all add: to_dict_def)

lemma init_fields:
  assumes r: "PromptVersion_init lib now (PStr s) v f d t c i out et eid = Inr r"
  shows "prompt r = s" "version r = v" "function_name r = f"
    "description r = py_or d (PStr [])" "tags r = py_or t (PList [])"
    "inputs r = py_or i (PDict [])" "output_value r = out" "execution_time r = et"
    "prompt_hash r = take 8 (md5_hexdigest lib s)"
proof -
  have "r = \<lparr> prompt = s, version = v, function_name = f,
      description = py_or d (PStr []), tags = py_or t (PList []),
      created_at = (case c of None \<Rightarrow> now | Some d \<Rightarrow> d),
      prompt_hash = take 8 (md5_hexdigest lib s),
      inputs = py_or i (PDict []), output_value = out, execution_time = et,
      execution_id = py_or eid (PStr (strftime lib (case c of None \<Rightarrow> now | Some d \<Rightarrow> d)
         @ ''_'' @ take 8 (md5_hexdigest lib s))) \<rparr>"
    using r by (simp add: PromptVersion_init_def Let_def)
  then show "prompt r = s" "version r = v" "function_name r = f"
    "description r = py_or d (PStr [])" "tags r = py_or t (PList [])"
    "inputs r = py_or i (PDict [])" "output_value r = out" "execution_time r = et"
    "prompt_hash r = take 8 (md5_hexdigest lib s)"
    by simp_all
qed

lemma example_record_init:
  "PromptVersion_init example_lib example_now (PStr ''Summarize the text.'') (PStr v)
     (PStr ''summarize'') PNone PNone None PNone PNone PNone PNone = Inr (example_record v)"
  by (simp add: PromptVersion_init_def example_lib_def example_record_def py_or_def Let_def)

lemma example_iso: "fromisoformat example_lib (isoformat example_lib d) = Some example_now"
  by (simp add: example_lib_def)

text \<open>
  Claim C7. For every record \<open>r\<close> that the constructor built, \<open>from_dict\<close> applied to
  \<open>to_dict r\<close> returns a record with the same prompt text, version, owner name,
  description, tags, inputs, output and execution time; its hash is computed again from
  the prompt text and equals the hash of \<open>r\<close>; and two records with the same prompt text
  have the same hash. The date read back is the one the library parses from the ISO text
  it wrote (\<open>iso\<close>).
\<close>

theorem from_dict_to_dict:
  assumes r: "PromptVersion_init lib now p v f d t c i out et eid = Inr r"
    and r2: "PromptVersion_init lib now2 p2 v2 f2 d2 t2 c2 i2 out2 et2 eid2 = Inr r2"
    and iso: "fromisoformat lib (isoformat lib (created_at r)) = Some dt"
  shows "(\<exists>r'. from_dict lib now' (PDict (to_dict lib r)) = Inr r'
            \<and> prompt r' = prompt r \<and> version r' = version r
            \<and> function_name r' = function_name r \<and> description r' = description r
            \<and> tags r' = tags r \<and> inputs r' = inputs r \<and> output_value r' = output_value r
            \<and> execution_time r' = execution_time r
            \<and> prompt_hash r' = take 8 (md5_hexdigest lib (prompt r'))
            \<and> prompt_hash r' = prompt_hash r)
         \<and> (if prompt r2 = prompt r then prompt_hash r2 = prompt_hash r else True)"
proof -
  obtain s where p: "p = PStr s"
    using r by (cases p) (simp_all add: PromptVersion_init_def)
  obtain s2 where p2: "p2 = PStr s2"
    using r2 by (cases p2) (simp_all add: PromptVersion_init_def)
  note fields = init_fields [OF r [unfolded p]]
  note fields2 = init_fields [OF r2 [unfolded p2]]
  let ?r' = "\<lparr> prompt = s, version = v, function_name = f,
      description = py_or (description r) (PStr []), tags = py_or (tags r) (PList []),
      created_at = dt, prompt_hash = take 8 (md5_hexdigest lib s),
      inputs = py_or (inputs r) (PDict []), output_value = out, execution_time = et,
      execution_id = py_or (execution_id r)
        (PStr (strftime lib dt @ ''_'' @ take 8 (md5_hexdigest lib s))) \<rparr>"
  have "from_dict lib now' (PDict (to_dict lib r)) = Inr ?r'"
    by (simp add: from_dict_def getitem_def dict_get_def map_of_to_dict parse_created_at_def iso
        PromptVersion_init_def Let_def fields)
  then have "\<exists>r'. from_dict lib now' (PDict (to_dict lib r)) = Inr r'
            \<and> prompt r' = prompt r \<and> version r' = version r
            \<and> function_name r' = function_name r \<and> description r' = description r
            \<and> tags r' = tags r \<and> inputs r' = inputs r \<and> output_value r' = output_value r
            \<and> execution_time r' = execution_time r
            \<and> prompt_hash r' = take 8 (md5_hexdigest lib (prompt r'))
            \<and> prompt_hash r' = prompt_hash r"
    by (simp add: fields py_or_idem)
  moreover have "if prompt r2 = prompt r then prompt_hash r2 = prompt_hash r else True"
    by (simp add: fields fields2)
  ultimately show ?thesis by blast
qed

theorem from_dict_to_dict_witness:
  "PromptVersion_init example_lib example_now (PStr ''Summarize the text.'') (PStr ''1.0.0'')
     (PStr ''summarize'') PNone PNone None PNone PNone PNone PNone = Inr (example_record ''1.0.0'')
   \<and> fromisoformat example_lib (isoformat example_lib (created_at (example_record ''1.0.0'')))
       = Some example_now
   \<and> (\<exists>r'. from_dict example_lib example_now
              (PDict (to_dict example_lib (example_record ''1.0.0''))) = Inr r'
        \<and> prompt r' = ''Summarize the text.'' \<and> version r' = PStr ''1.0.0''
        \<and> function_name r' = PStr ''summarize'' \<and> prompt_hash r' = ''9e107d9d'')
   \<and> prompt_hash (example_record ''1.1.0'') = prompt_hash (example_record ''1.0.0'')"
proof -
  have t: "(\<exists>r'. from_dict example_lib example_now
              (PDict (to_dict example_lib (example_record ''1.0.0''))) = Inr r'
            \<and> prompt r' = prompt (example_record ''1.0.0'')
            \<and> version r' = version (example_record ''1.0.0'')
            \<and> function_name r' = function_name (example_record ''1.0.0'')
            \<and> description r' = description (example_record ''1.0.0'')
            \<and> tags r' = tags (example_record ''1.0.0'')
            \<and> inputs r' = inputs (example_record ''1.0.0'')
            \<and> output_value r' = output_value (example_record ''1.0.0'')
            \<and> execution_time r' = execution_time (example_record ''1.0.0'')
            \<and> prompt_hash r' = take 8 (md5_hexdigest example_lib (prompt r'))
            \<and> prompt_hash r' = prompt_hash (example_record ''1.0.0''))
         \<and> (if prompt (example_record ''1.1.0'') = prompt (example_record ''1.0.0'')
             then prompt_hash (example_record ''1.1.0'') = prompt_hash (example_record ''1.0.0'')
             else True)"
    by (rule from_dict_to_dict [OF example_record_init example_record_init example_iso])
  then obtain r' where r': "from_dict example_lib example_now
              (PDict (to_dict example_lib (example_record ''1.0.0''))) = Inr r'"
     "prompt r' = prompt (example_record ''1.0.0'')"
     "version r' = version (example_record ''1.0.0'')"
     "function_name r' = function_name (example_record ''1.0.0'')"
     "prompt_hash r' = prompt_hash (example_record ''1.0.0'')"
    by blast
  have "\<exists>r'. from_dict example_lib example_now
              (PDict (to_dict example_lib (example_record ''1.0.0''))) = Inr r'
        \<and> prompt r' = ''Summarize the text.'' \<and> version r' = PStr ''1.0.0''
        \<and> function_name r' = PStr ''summarize'' \<and> prompt_hash r' = ''9e107d9d''"
    using r' by (simp add: example_record_def)
  moreover have "prompt_hash (example_record ''1.1.0'') = prompt_hash (example_record ''1.0.0'')"
    using t by (simp add: example_record_def)
  ultimately show ?thesis
    using example_record_init [of "''1.0.0''"] example_iso by simp
qed

section \<open>Properties of the record store\<close>

text \<open>
  Claim C1. \<open>add\<close> is claimed to insert the record under the key \<open>{ownerName}_{version}\<close>
  and never to fail, so that \<open>get\<close> returns it. \<open>add_prompt\<close> builds its key from
  \<open>prompt_version.project_version\<close> and \<open>prompt_version.agent_version\<close>, attributes that
  \<open>PromptVersion\<close> does not have: every call raises AttributeError, before the index or the
  directory changes.
\<close>

theorem add_prompt_raises:
  "add_prompt lib now t d self pv = Inl (AttributeError ''project_version'')"
  by (simp add: add_prompt_def project_version_def)

lemma py_max_project_version_key:
  "xs \<noteq> [] \<Longrightarrow> py_max project_version_key xs = Inl (AttributeError ''project_version'')"
  by (cases xs) (simp_all add: py_max_def project_version_key_def project_version_def)

text \<open>
  Claim C3. \<open>getLatestBySemver\<close> is claimed to return the stored record of the owner with
  the greatest parsed version. \<open>get_latest_project_version\<close> orders the records by
  \<open>x.project_version\<close>, which no record has: with at least one record of the owner in the
  store it raises AttributeError, and it returns \<open>None\<close> otherwise.
\<close>

theorem get_latest_project_version_raises:
  "get_latest_project_version self fname =
     (if versions_of self fname = [] then Inr None else Inl (AttributeError ''project_version''))"
  by (simp add: get_latest_project_version_def Let_def py_max_project_version_key)

lemma from_dict_recoverable:
  assumes "entry_recoverable lib v"
  shows "(\<exists>pv. from_dict lib now v = Inr pv) \<or> (\<exists>k. from_dict lib now v = Inl (KeyError k))"
proof -
  obtain e where v: "v = PDict e"
    using assms by (cases v) (simp_all add: entry_recoverable_def)
  show ?thesis
  proof (cases "map_of e ''prompt'' = None \<or> map_of e ''version'' = None
              \<or> map_of e ''function_name'' = None \<or> map_of e ''created_at'' = None")
    case True
    then have "\<exists>k. from_dict lib now v = Inl (KeyError k)"
      unfolding v from_dict_def getitem_def dict_get_def
      by (auto split: option.splits)
    then show ?thesis by blast
  next
    case False
    then obtain p c where pc: "map_of e ''prompt'' = Some (PStr p)" "map_of e ''created_at'' = Some (PStr c)"
        and iso: "fromisoformat lib c \<noteq> None"
      using assms unfolding v entry_recoverable_def
      by (auto split: option.splits pyval.splits)
    from False obtain ver fn where vf: "map_of e ''version'' = Some ver" "map_of e ''function_name'' = Some fn"
      by auto
    from iso obtain dt where dt: "fromisoformat lib c = Some dt" by auto
    have "\<exists>pv. from_dict lib now v = Inr pv"
      unfolding v from_dict_def getitem_def dict_get_def parse_created_at_def PromptVersion_init_def
      by (simp add: pc vf dt Let_def split: option.splits)
    then show ?thesis by blast
  qed
qed

lemma dict_set_fresh: "k \<notin> set (map fst ps) \<Longrightarrow> dict_set ps k v = ps @ [(k, v)]"
  by (induction ps) auto

lemma load_items_all:
  assumes "distinct (map fst items)"
    and "set (map fst items) \<inter> set (map fst ps) = {}"
    and "\<not> list_ex (\<lambda>kv. isl (from_dict lib now (snd kv))) items"
  shows "\<exists>ix. load_items lib now items ps = (ps @ ix, None)
           \<and> list_all2 (\<lambda>kv kr. fst kr = fst kv \<and> from_dict lib now (snd kv) = Inr (snd kr)) items ix"
  using assms
proof (induction items arbitrary: ps)
  case Nil
  show ?case by simp
next
  case (Cons kv items)
  obtain k v where kv: "kv = (k, v)" by (cases kv)
  obtain pv where pv: "from_dict lib now v = Inr pv"
    using Cons.prems(3) by (cases "from_dict lib now v") (simp_all add: kv)
  have fresh: "k \<notin> set (map fst ps)" using Cons.prems(2) by (auto simp: kv)
  have d: "distinct (map fst items)" and nk: "k \<notin> set (map fst items)"
    using Cons.prems(1) by (simp_all add: kv)
  have disj: "set (map fst items) \<inter> set (map fst (ps @ [(k, pv)])) = {}"
    using Cons.prems(2) nk by (auto simp: kv)
  have ok: "\<not> list_ex (\<lambda>kv. isl (from_dict lib now (snd kv))) items"
    using Cons.prems(3) by simp
  from Cons.IH [OF d disj ok]
  obtain ix where ix: "load_items lib now items (ps @ [(k, pv)]) = ((ps @ [(k, pv)]) @ ix, None)"
    and rel: "list_all2 (\<lambda>kv kr. fst kr = fst kv \<and> from_dict lib now (snd kv) = Inr (snd kr)) items ix"
    by blast
  have "load_items lib now (kv # items) ps = (ps @ (k, pv) # ix, None)"
    using ix by (simp add: kv pv dict_set_fresh [OF fresh])
  moreover have "list_all2 (\<lambda>kv kr. fst kr = fst kv \<and> from_dict lib now (snd kv) = Inr (snd kr))
                   (kv # items) ((k, pv) # ix)"
    using rel by (simp add: kv pv)
  ultimately show ?case by blast
qed

lemma load_items_raises:
  assumes "list_all (\<lambda>kv. entry_recoverable lib (snd kv)) items"
    and "list_ex (\<lambda>kv. isl (from_dict lib now (snd kv))) items"
  shows "\<exists>ps' e. load_items lib now items ps = (ps', Some e) \<and> caught e"
  using assms
proof (induction items arbitrary: ps)
  case Nil
  then show ?case by simp
next
  case (Cons kv items)
  obtain k v where kv: "kv = (k, v)" by (cases kv)
  have ev: "entry_recoverable lib v"
    and rest: "list_all (\<lambda>kv. entry_recoverable lib (snd kv)) items"
    using Cons.prems(1) by (simp_all add: kv)
  from from_dict_recoverable [OF ev, of now] show ?case
  proof
    assume "\<exists>pv. from_dict lib now v = Inr pv"
    then obtain pv where pv: "from_dict lib now v = Inr pv" by blast
    then have "list_ex (\<lambda>kv. isl (from_dict lib now (snd kv))) items"
      using Cons.prems(2) by (simp add: kv)
    from Cons.IH [OF rest this, of "dict_set ps k pv"] show ?thesis
      by (simp add: kv pv)
  next
    assume "\<exists>k. from_dict lib now v = Inl (KeyError k)"
    then obtain k' where "from_dict lib now v = Inl (KeyError k')" by blast
    then show ?thesis by (simp add: kv caught_def)
  qed
qed

lemma load_file_loads:
  assumes "file_recoverable lib f" and "\<not> file_fails lib now f"
  shows "\<exists>ix. load_file lib now f [] = (ix, None) \<and> loads_as lib now f ix"
proof -
  obtain data where j: "json_load f = Inr data"
    using assms(2) by (cases "json_load f") (simp_all add: file_fails_def)
  obtain items where d: "data = PDict items"
    using assms(2) j by (cases data) (simp_all add: file_fails_def)
  have "distinct (map fst items)"
    and "\<not> list_ex (\<lambda>kv. isl (from_dict lib now (snd kv))) items"
    using assms j d by (simp_all add: file_recoverable_def file_fails_def)
  from load_items_all [OF this(1) _ this(2), of "[]"]
  show ?thesis by (simp add: load_file_def loads_as_def j d)
qed

lemma load_file_raises:
  assumes "file_recoverable lib f" and "file_fails lib now f"
  shows "\<exists>ps' e. load_file lib now f ps = (ps', Some e) \<and> caught e
           \<and> (if json_load f = Inl JSONDecodeError then ps' = ps else True)"
proof (cases "json_load f")
  case (Inl e)
  then have "e = JSONDecodeError" using assms(1) by (simp add: file_recoverable_def)
  then show ?thesis using Inl by (simp add: load_file_def caught_def)
next
  case (Inr data)
  then obtain items where d: "data = PDict items"
    using assms(1) by (cases data) (simp_all add: file_recoverable_def)
  have "list_all (\<lambda>kv. entry_recoverable lib (snd kv)) items"
    and "list_ex (\<lambda>kv. isl (from_dict lib now (snd kv))) items"
    using assms Inr d by (simp_all add: file_recoverable_def file_fails_def)
  from load_items_raises [OF this, of ps]
  show ?thesis by (simp add: load_file_def Inr d)
qed

lemma load_legacy_recovers:
  assumes "case prompts_file d of None \<Rightarrow> True | Some l \<Rightarrow> file_recoverable lib l"
  shows "\<exists>ps'. load_legacy lib now d ps = Inr ps'"
proof (cases "prompts_file d")
  case None
  then show ?thesis by (simp add: load_legacy_def)
next
  case (Some l)
  then have fr: "file_recoverable lib l" using assms by simp
  obtain ps' err where lf: "load_file lib now l ps = (ps', err)"
    by (cases "load_file lib now l ps")
  show ?thesis
  proof (cases err)
    case None
    then show ?thesis by (simp add: load_legacy_def Some lf)
  next
    case e: (Some e)
    have "file_fails lib now l"
    proof (rule ccontr)
      assume nf: "\<not> file_fails lib now l"
      obtain data where j: "json_load l = Inr data"
        using nf by (cases "json_load l") (simp_all add: file_fails_def)
      obtain items where dd: "data = PDict items"
        using nf j by (cases data) (simp_all add: file_fails_def)
      have "\<not> list_ex (\<lambda>kv. isl (from_dict lib now (snd kv))) items"
        using nf j dd by (simp add: file_fails_def)
      then have "snd (load_items lib now items ps) = None"
      proof (induction items arbitrary: ps)
        case Nil
        show ?case by simp
      next
        case (Cons kv items)
        obtain k v where kv: "kv = (k, v)" by (cases kv)
        obtain pv where pv: "from_dict lib now v = Inr pv"
          using Cons.prems by (cases "from_dict lib now v") (simp_all add: kv)
        show ?case using Cons by (simp add: kv pv)
      qed
      then show False using lf e by (simp add: load_file_def j dd)
    qed
    from load_file_raises [OF fr this, of ps] have "caught e" using lf e by simp
    then show ?thesis by (simp add: load_legacy_def Some lf e)
  qed
qed

lemma load_legacy_gives:
  assumes "case prompts_file d of None \<Rightarrow> True | Some l \<Rightarrow> file_recoverable lib l"
  shows "\<exists>ix. load_legacy lib now d [] = Inr ix \<and> legacy_gives lib now d ix"
proof (cases "prompts_file d")
  case None
  then show ?thesis by (simp add: load_legacy_def legacy_gives_def)
next
  case (Some l)
  then have fr: "file_recoverable lib l" using assms by simp
  show ?thesis
  proof (cases "file_fails lib now l")
    case True
    from load_file_raises [OF fr True, of "[]"]
    obtain ps' e where "load_file lib now l [] = (ps', Some e)" "caught e" by blast
    then show ?thesis using True by (simp add: load_legacy_def legacy_gives_def Some)
  next
    case False
    from load_file_loads [OF fr False]
    obtain ix where "load_file lib now l [] = (ix, None)" "loads_as lib now l ix" by blast
    then show ?thesis using False by (simp add: load_legacy_def legacy_gives_def Some)
  qed
qed

text \<open>
  Claim C4, amended. Constructing the store does not raise when the newest snapshot file
  and the legacy file, where they exist, are each either rejected by the JSON parser or a
  JSON object whose entries are objects that lack a required key or carry a string prompt
  and a creation date that parses. Then: when the newest snapshot loads, the index holds
  the records of its entries, key by key and in order; when there is no snapshot, or the
  parser rejects the newest one, the index is what the legacy file gives, which is its
  records when it loads and nothing when it is absent or fails.
\<close>

theorem load_prompts_recovers:
  assumes newest: "case list_timestamped_files d of [] \<Rightarrow> True | f # _ \<Rightarrow> file_recoverable lib f"
    and legacy: "case prompts_file d of None \<Rightarrow> True | Some l \<Rightarrow> file_recoverable lib l"
  shows "\<exists>st. PromptStorage_init lib now d source = Inr st \<and>
     (case list_timestamped_files d of
        [] \<Rightarrow> legacy_gives lib now d (prompts st)
      | f # _ \<Rightarrow>
          (if file_fails lib now f
           then (if json_load f = Inl JSONDecodeError
                 then legacy_gives lib now d (prompts st) else True)
           else loads_as lib now f (prompts st)))"
proof (cases "list_timestamped_files d")
  case Nil
  from load_legacy_gives [OF legacy]
  obtain ix where ix: "load_legacy lib now d [] = Inr ix" "legacy_gives lib now d ix" by blast
  have "PromptStorage_init lib now d source = Inr \<lparr>source_filename = source, prompts = ix\<rparr>"
    by (simp add: PromptStorage_init_def load_prompts_def Nil ix)
  then show ?thesis using ix(2) by (simp add: Nil)
next
  case (Cons f fs)
  then have fr: "file_recoverable lib f" using newest by simp
  show ?thesis
  proof (cases "file_fails lib now f")
    case False
    from load_file_loads [OF fr False]
    obtain ix where ix: "load_file lib now f [] = (ix, None)" "loads_as lib now f ix" by blast
    have "PromptStorage_init lib now d source = Inr \<lparr>source_filename = source, prompts = ix\<rparr>"
      by (simp add: PromptStorage_init_def load_prompts_def Cons ix)
    then show ?thesis using ix(2) False by (simp add: Cons)
  next
    case True
    from load_file_raises [OF fr True, of "[]"]
    obtain ps e where lf: "load_file lib now f [] = (ps, Some e)" and c: "caught e"
      and keep: "if json_load f = Inl JSONDecodeError then ps = [] else True"
      by blast
    show ?thesis
    proof (cases "json_load f = Inl JSONDecodeError")
      case j: True
      then have ps: "ps = []" using keep by simp
      from load_legacy_gives [OF legacy]
      obtain ix where ix: "load_legacy lib now d [] = Inr ix" "legacy_gives lib now d ix" by blast
      have "PromptStorage_init lib now d source = Inr \<lparr>source_filename = source, prompts = ix\<rparr>"
        by (simp add: PromptStorage_init_def load_prompts_def Cons lf c ps ix)
      then show ?thesis using ix(2) True j by (simp add: Cons)
    next
      case j: False
      from load_legacy_recovers [OF legacy]
      obtain ps' where ps': "load_legacy lib now d ps = Inr ps'" by blast
      have "PromptStorage_init lib now d source = Inr \<lparr>source_filename = source, prompts = ps'\<rparr>"
        by (simp add: PromptStorage_init_def load_prompts_def Cons lf c ps')
      then show ?thesis using True j by (simp add: Cons)
    qed
  qed
qed

lemma example_dir_newest:
  "list_timestamped_files example_dir =
     [File ''prompts_run_20240101_000000.json'' 7 (Inl JSONDecodeError),
      File ''prompts_run_20231231_000000.json'' 3 (Inr (PList []))]"
  by code_simp

lemma example_dir_legacy:
  "prompts_file example_dir = Some (File ''prompts.json'' 5
     (Inr (PDict [(''summarize_1.0.0'', PDict (to_dict example_lib (example_record ''1.0.0''))),
                  (''summarize_1.1.0'', PDict (to_dict example_lib (example_record ''1.1.0'')))])))"
  by code_simp

lemma from_dict_example:
  "from_dict example_lib example_now (PDict (to_dict example_lib (example_record v)))
     = Inr (example_record v)"
  by (simp add: from_dict_def to_dict_def getitem_def dict_get_def parse_created_at_def
     PromptVersion_init_def example_lib_def example_record_def py_or_def Let_def)

lemma example_entry_recoverable:
  "entry_recoverable example_lib (PDict (to_dict example_lib (example_record v)))"
  by (simp add: entry_recoverable_def to_dict_def example_lib_def)

theorem load_prompts_recovers_witness:
  "list_timestamped_files example_dir =
     [File ''prompts_run_20240101_000000.json'' 7 (Inl JSONDecodeError),
      File ''prompts_run_20231231_000000.json'' 3 (Inr (PList []))]
   \<and> file_recoverable example_lib (File ''prompts_run_20240101_000000.json'' 7 (Inl JSONDecodeError))
   \<and> (\<exists>l. prompts_file example_dir = Some l \<and> file_recoverable example_lib l)
   \<and> (\<exists>st. PromptStorage_init example_lib example_now example_dir ''run'' = Inr st
          \<and> prompts st = [(''summarize_1.0.0'', example_record ''1.0.0''),
                          (''summarize_1.1.0'', example_record ''1.1.0'')])"
proof -
  let ?l = "File ''prompts.json'' 5
     (Inr (PDict [(''summarize_1.0.0'', PDict (to_dict example_lib (example_record ''1.0.0''))),
                  (''summarize_1.1.0'', PDict (to_dict example_lib (example_record ''1.1.0'')))]))"
  let ?n = "File ''prompts_run_20240101_000000.json'' 7 (Inl JSONDecodeError)"
  have n: "file_recoverable example_lib ?n"
    by (simp add: file_recoverable_def)
  have l: "file_recoverable example_lib ?l"
    by (simp add: file_recoverable_def example_entry_recoverable)
  have h1: "case list_timestamped_files example_dir of [] \<Rightarrow> True
            | f # _ \<Rightarrow> file_recoverable example_lib f"
    by (simp add: example_dir_newest n)
  have h2: "case prompts_file example_dir of None \<Rightarrow> True
            | Some l \<Rightarrow> file_recoverable example_lib l"
    by (simp add: example_dir_legacy l)
  have nf: "file_fails example_lib example_now ?n" by (simp add: file_fails_def)
  have lf: "\<not> file_fails example_lib example_now ?l"
    by (simp add: file_fails_def from_dict_example)
  from load_prompts_recovers [OF h1 h2, of example_now "''run''"]
  obtain st where st: "PromptStorage_init example_lib example_now example_dir ''run'' = Inr st"
    and g: "legacy_gives example_lib example_now example_dir (prompts st)"
    by (auto simp: example_dir_newest nf)
  from g have "loads_as example_lib example_now ?l (prompts st)"
    by (simp add: legacy_gives_def example_dir_legacy lf)
  then have "prompts st = [(''summarize_1.0.0'', example_record ''1.0.0''),
                          (''summarize_1.1.0'', example_record ''1.1.0'')]"
    by (auto simp: loads_as_def from_dict_example list_all2_Cons1)
  with st n l example_dir_newest example_dir_legacy show ?thesis by simp
qed

text \<open>
  Claim C4, as stated: construction never raises, whatever the snapshot files hold. The
  loader catches JSONDecodeError and KeyError only. A newest snapshot that is valid JSON
  but a list has no \<open>items\<close> (AttributeError); one whose record entry is a number cannot be
  subscripted (TypeError); one that is not text makes the parser raise UnicodeDecodeError:
  each of these errors leaves the constructor.
\<close>

theorem load_prompts_raises:
  "PromptStorage_init example_lib example_now
     [File ''prompts_run_20240101_000000.json'' 1 (Inr (PList []))] ''run''
     = Inl (AttributeError ''items'')
   \<and> PromptStorage_init example_lib example_now
     [File ''prompts_run_20240101_000000.json'' 1 (Inr (PDict [(''summarize_1.0.0'', PInt 5)]))]
     ''run'' = Inl TypeError
   \<and> PromptStorage_init example_lib example_now
     [File ''prompts_run_20240101_000000.json'' 1 (Inl UnicodeDecodeError)] ''run''
     = Inl UnicodeDecodeError"
proof -
  have a: "PromptStorage_init example_lib example_now
     [File ''prompts_run_20240101_000000.json'' 1 (Inr (PList []))] ''run''
     = Inl (AttributeError ''items'')"
    by code_simp
  have b: "PromptStorage_init example_lib example_now
     [File ''prompts_run_20240101_000000.json'' 1 (Inr (PDict [(''summarize_1.0.0'', PInt 5)]))]
     ''run'' = Inl TypeError"
    by code_simp
  have c: "PromptStorage_init example_lib example_now
     [File ''prompts_run_20240101_000000.json'' 1 (Inl UnicodeDecodeError)] ''run''
     = Inl UnicodeDecodeError"
    by code_simp
  from a b c show ?thesis by simp
qed

section \<open>Properties of the tracking wrapper\<close>

text \<open>
  Claim C2. When the wrapped function raises, the wrapper is claimed to record the failure
  as an \<open>"ERROR: ..."\<close> output, still persist the version record, and re-raise. The handler
  assigns the error text and re-raises at once, and the statements that build and store the
  record come after the \<open>try\<close> block: the caller gets the original exception, and the
  directory is the one the call started with, so nothing is persisted. On an empty
  directory the failing call of \<open>summarize\<close> ends with its own exception and no file.
\<close>

theorem wrapper_failure_not_persisted:
  "fst (wrapper lib now t d version_arg description_arg tags_arg auto_version
          (call \<lparr> func_result := Inl e \<rparr>)) = d
   \<and> wrapper example_lib example_now 9 [] ''1.0.0'' PNone PNone True failing_call
       = ([], Inl (Raised ''model unavailable''))"
proof -
  have a: "fst (wrapper lib now t d version_arg description_arg tags_arg auto_version
          (call \<lparr> func_result := Inl e \<rparr>)) = d"
    by (simp add: wrapper_def run_tracked_def split: sum.splits)
  have b: "wrapper example_lib example_now 9 [] ''1.0.0'' PNone PNone True failing_call
       = ([], Inl (Raised ''model unavailable''))"
    by code_simp
  from a b show ?thesis by simp
qed

section \<open>Properties of version validation\<close>

lemma conc_Nil: "[] \<in> conc A B \<longleftrightarrow> [] \<in> A \<and> [] \<in> B"
  by (auto simp: conc_def)

lemma conc_Cons:
  "c # s \<in> conc A B \<longleftrightarrow>
     ([] \<in> A \<and> c # s \<in> B) \<or> (\<exists>u v. s = u @ v \<and> c # u \<in> A \<and> v \<in> B)"
proof
  assume "c # s \<in> conc A B"
  then obtain u v where uv: "c # s = u @ v" "u \<in> A" "v \<in> B"
    by (auto simp: conc_def)
  show "([] \<in> A \<and> c # s \<in> B) \<or> (\<exists>u v. s = u @ v \<and> c # u \<in> A \<and> v \<in> B)"
  proof (cases u)
    case Nil
    then show ?thesis using uv by simp
  next
    case (Cons a u')
    then have "s = u' @ v" "c # u' \<in> A" using uv by simp_all
    then show ?thesis using uv(3) by blast
  qed
next
  assume "([] \<in> A \<and> c # s \<in> B) \<or> (\<exists>u v. s = u @ v \<and> c # u \<in> A \<and> v \<in> B)"
  then show "c # s \<in> conc A B"
  proof
    assume "[] \<in> A \<and> c # s \<in> B"
    then have "[] @ (c # s) \<in> conc A B" unfolding conc_def by blast
    then show ?thesis by simp
  next
    assume "\<exists>u v. s = u @ v \<and> c # u \<in> A \<and> v \<in> B"
    then obtain u v where "s = u @ v" "c # u \<in> A" "v \<in> B" by blast
    then have "(c # u) @ v \<in> conc A B" unfolding conc_def by blast
    then show ?thesis using \<open>s = u @ v\<close> by simp
  qed
qed

lemma star_Cons_split:
  "x \<in> star A \<Longrightarrow> x = c # s \<Longrightarrow> \<exists>u v. s = u @ v \<and> c # u \<in> A \<and> v \<in> star A"
proof (induction rule: star.induct)
  case star_nil
  then show ?case by simp
next
  case (star_app u v)
  show ?case
  proof (cases u)
    case Nil
    then show ?thesis using star_app by simp
  next
    case (Cons a u')
    then have "s = u' @ v" "c # u' \<in> A" using star_app by simp_all
    then show ?thesis using star_app(2) by blast
  qed
qed

lemma star_Cons:
  "c # s \<in> star A \<longleftrightarrow> (\<exists>u v. s = u @ v \<and> c # u \<in> A \<and> v \<in> star A)"
proof
  assume "c # s \<in> star A"
  then show "\<exists>u v. s = u @ v \<and> c # u \<in> A \<and> v \<in> star A"
    using star_Cons_split by blast
next
  assume "\<exists>u v. s = u @ v \<and> c # u \<in> A \<and> v \<in> star A"
  then obtain u v where "s = u @ v" "c # u \<in> A" "v \<in> star A" by blast
  then have "(c # u) @ v \<in> star A" by (blast intro: star_app)
  then show "c # s \<in> star A" using \<open>s = u @ v\<close> by simp
qed

lemma nullable_lang: "nullable r \<longleftrightarrow> [] \<in> lang r"
  by (induction r) (auto simp: conc_Nil intro: star_nil)

lemma conc_iff: "s \<in> conc A B \<longleftrightarrow> (\<exists>u v. s = u @ v \<and> u \<in> A \<and> v \<in> B)"
  by (auto simp: conc_def)

lemma deriv_lang: "s \<in> lang (deriv c r) \<longleftrightarrow> c # s \<in> lang r"
proof (induction r arbitrary: s)
  case (Seq r1 r2)
  have left: "s \<in> conc (lang (deriv c r1)) (lang r2)
                \<longleftrightarrow> (\<exists>u v. s = u @ v \<and> c # u \<in> lang r1 \<and> v \<in> lang r2)"
    by (simp add: conc_iff Seq.IH(1))
  show ?case
  proof (cases "nullable r1")
    case True
    then have "[] \<in> lang r1" by (simp add: nullable_lang)
    then show ?thesis
      using True left by (simp add: conc_Cons Seq.IH(2)) blast
  next
    case False
    then have "[] \<notin> lang r1" by (simp add: nullable_lang)
    then show ?thesis
      using False left by (simp add: conc_Cons)
  qed
next
  case (Star r)
  have "s \<in> conc (lang (deriv c r)) (star (lang r))
          \<longleftrightarrow> (\<exists>u v. s = u @ v \<and> c # u \<in> lang r \<and> v \<in> star (lang r))"
    by (simp add: conc_iff Star.IH)
  then show ?case by (simp add: star_Cons)
qed auto

lemma matches_lang: "matches r s \<longleftrightarrow> s \<in> lang r"
  by (induction s arbitrary: r) (simp_all add: nullable_lang deriv_lang)

lemma star_sym: "s \<in> star {[c] | c. p c} \<longleftrightarrow> list_all p s"
proof
  assume "s \<in> star {[c] | c. p c}"
  then show "list_all p s"
    by (induction rule: star.induct) auto
next
  assume "list_all p s"
  then show "s \<in> star {[c] | c. p c}"
  proof (induction s)
    case Nil
    show ?case by (rule star_nil)
  next
    case (Cons c s)
    then have "[c] \<in> {[c] | c. p c}" "s \<in> star {[c] | c. p c}" by simp_all
    then have "[c] @ s \<in> star {[c] | c. p c}" by (rule star_app)
    then show ?case by simp
  qed
qed

lemma sym_then_star:
  "s \<in> conc {[c] | c. p c} (star {[c] | c. q c}) \<longleftrightarrow>
     (\<exists>c t. s = c # t \<and> p c \<and> list_all q t)"
proof
  assume "s \<in> conc {[c] | c. p c} (star {[c] | c. q c})"
  then show "\<exists>c t. s = c # t \<and> p c \<and> list_all q t"
    by (auto simp: conc_iff star_sym)
next
  assume "\<exists>c t. s = c # t \<and> p c \<and> list_all q t"
  then obtain c t where "s = [c] @ t" "p c" "list_all q t" by auto
  then show "s \<in> conc {[c] | c. p c} (star {[c] | c. q c})"
    unfolding conc_iff star_sym by blast
qed

lemma nonzero_digit_iff: "nonzero_digit c \<longleftrightarrow> isdecimal c \<and> c \<noteq> CHR ''0''"
  by (auto simp: nonzero_digit_def isdecimal_def Let_def char_eq_code_point [of c] code_point_def)

lemma isdecimal_zero: "isdecimal CHR ''0''"
  by (simp add: isdecimal_def code_point_def)

lemma lang_numeric: "s \<in> lang rx_numeric \<longleftrightarrow> grammar_numeric s"
proof -
  have "s \<in> lang rx_numeric \<longleftrightarrow>
          s = ''0'' \<or> (\<exists>c t. s = c # t \<and> nonzero_digit c \<and> list_all isdecimal t)"
    unfolding rx_numeric_def Lit_def lang.simps Un_iff sym_then_star by auto
  also have "\<dots> \<longleftrightarrow> grammar_numeric s"
    by (cases s) (auto simp: grammar_numeric_def nonzero_digit_iff isdecimal_zero)
  finally show ?thesis .
qed

lemma lang_build_id: "s \<in> lang rx_build_id \<longleftrightarrow> grammar_build_identifier s"
  unfolding rx_build_id_def Plus_def lang.simps sym_then_star grammar_build_identifier_def
  by (cases s) auto

lemma letter_or_hyphen_iff: "letter_or_hyphen c \<longleftrightarrow> alnum_or_hyphen c \<and> \<not> isdecimal c"
  by (auto simp: letter_or_hyphen_def alnum_or_hyphen_def ascii_letter_def isdecimal_def Let_def
      code_point_def)

lemma isdecimal_alnum: "isdecimal c \<Longrightarrow> alnum_or_hyphen c"
  by (simp add: alnum_or_hyphen_def)

lemma list_all_isdecimal_alnum: "list_all isdecimal s \<Longrightarrow> list_all alnum_or_hyphen s"
  by (induction s) (auto simp: isdecimal_alnum)

lemma lang_alphanumeric_id:
  "s \<in> conc (star {[c] | c. isdecimal c})
          (conc {[c] | c. letter_or_hyphen c} (star {[c] | c. alnum_or_hyphen c}))
     \<longleftrightarrow> list_all alnum_or_hyphen s \<and> \<not> list_all isdecimal s"
proof
  assume "s \<in> conc (star {[c] | c. isdecimal c})
          (conc {[c] | c. letter_or_hyphen c} (star {[c] | c. alnum_or_hyphen c}))"
  then obtain ds c t where s: "s = ds @ c # t" and ds: "list_all isdecimal ds"
    and c: "letter_or_hyphen c" and t: "list_all alnum_or_hyphen t"
    by (auto simp: conc_iff [of s] sym_then_star star_sym)
  show "list_all alnum_or_hyphen s \<and> \<not> list_all isdecimal s"
    using ds c t by (simp add: s list_all_isdecimal_alnum letter_or_hyphen_iff)
next
  assume a: "list_all alnum_or_hyphen s \<and> \<not> list_all isdecimal s"
  let ?ds = "takeWhile isdecimal s"
  have "dropWhile isdecimal s \<noteq> []"
    using a by (simp add: list_all_iff) 
  then obtain c t where ct: "dropWhile isdecimal s = c # t"
    by (cases "dropWhile isdecimal s") auto
  have s: "s = ?ds @ c # t"
    using takeWhile_dropWhile_id [of isdecimal s] ct by simp
  have nd: "\<not> isdecimal c"
    using hd_dropWhile [of isdecimal s] ct by simp
  have "list_all alnum_or_hyphen (c # t)"
    using a s by (metis list_all_append)
  then have "letter_or_hyphen c" "list_all alnum_or_hyphen t"
    using nd by (simp_all add: letter_or_hyphen_iff)
  moreover have "list_all isdecimal ?ds"
    by (simp add: list_all_iff) (meson set_takeWhileD)
  ultimately have "?ds @ c # t \<in> conc (star {[c] | c. isdecimal c})
          (conc {[c] | c. letter_or_hyphen c} (star {[c] | c. alnum_or_hyphen c}))"
    unfolding conc_iff [of "?ds @ c # t"] sym_then_star star_sym by blast
  then show "s \<in> conc (star {[c] | c. isdecimal c})
          (conc {[c] | c. letter_or_hyphen c} (star {[c] | c. alnum_or_hyphen c}))"
    using s by simp
qed

lemma grammar_numeric_decimal: "grammar_numeric s \<Longrightarrow> s \<noteq> [] \<and> list_all isdecimal s"
  by (cases s) (auto simp: grammar_numeric_def)

lemma lang_prerelease_id: "s \<in> lang rx_prerelease_id \<longleftrightarrow> grammar_prerelease_identifier s"
proof -
  have "s \<in> lang rx_prerelease_id \<longleftrightarrow>
          s \<in> lang rx_numeric \<or> (list_all alnum_or_hyphen s \<and> \<not> list_all isdecimal s)"
    unfolding rx_prerelease_id_def rx_numeric_def lang.simps Un_iff lang_alphanumeric_id
    by blast
  also have "\<dots> \<longleftrightarrow> grammar_prerelease_identifier s"
    unfolding lang_numeric grammar_prerelease_identifier_def
    using grammar_numeric_decimal [of s] list_all_isdecimal_alnum [of s]
    by (cases s) auto
  finally show ?thesis .
qed

lemma concI: "u \<in> A \<Longrightarrow> v \<in> B \<Longrightarrow> u @ v \<in> conc A B"
  unfolding conc_def by blast

lemma split_on_no_sep: "c \<notin> set w \<Longrightarrow> split_on c w = [w]"
  by (induction w) auto

lemma split_on_append_sep: "c \<notin> set w \<Longrightarrow> split_on c (w @ c # t) = w # split_on c t"
  by (induction w) auto

lemma split_on_nonempty: "split_on c s \<noteq> []"
proof (induction s)
  case Nil
  show ?case by simp
next
  case (Cons a s)
  then show ?case by (cases "split_on c s") simp_all
qed

lemma split_on_join:
  "split_on c s = x # xs \<Longrightarrow> s = x @ concat (map ((#) c) xs) \<and> c \<notin> set x"
proof (induction s arbitrary: x xs)
  case Nil
  then show ?case by simp
next
  case (Cons a s)
  show ?case
  proof (cases "a = c")
    case True
    then have x: "x = []" and xs: "xs = split_on c s" using Cons.prems by simp_all
    obtain y ys where y: "split_on c s = y # ys"
      using split_on_nonempty [of c s] by (cases "split_on c s") simp_all
    from Cons.IH [OF y] have "s = y @ concat (map ((#) c) ys)" by simp
    then show ?thesis using True x xs y by simp
  next
    case False
    obtain y ys where y: "split_on c s = y # ys"
      using split_on_nonempty [of c s] by (cases "split_on c s") simp_all
    then have x: "x = a # y" and xs: "xs = ys" using Cons.prems False by simp_all
    from Cons.IH [OF y] have "s = y @ concat (map ((#) c) ys)" "c \<notin> set y" by simp_all
    then show ?thesis using False x xs by auto
  qed
qed

lemma dotted_star:
  assumes nodot: "\<And>w. w \<in> A \<Longrightarrow> CHR ''.'' \<notin> set w"
  shows "rest \<in> star (conc {[CHR ''.'']} A) \<Longrightarrow> w0 \<in> A \<Longrightarrow>
           list_all (\<lambda>w. w \<in> A) (split_on CHR ''.'' (w0 @ rest))"
proof (induction arbitrary: w0 rule: star.induct)
  case star_nil
  then show ?case using nodot [of w0] by (simp add: split_on_no_sep)
next
  case (star_app u v)
  from star_app(1) obtain w where u: "u = CHR ''.'' # w" and w: "w \<in> A"
    by (auto simp: conc_iff)
  have "split_on CHR ''.'' (w0 @ u @ v) = w0 # split_on CHR ''.'' (w @ v)"
    using nodot [OF star_app(4)] by (simp add: u split_on_append_sep)
  then show ?case using star_app(3) [OF w] star_app(4) by simp
qed

lemma concat_dotted_star:
  "list_all (\<lambda>w. w \<in> A) ws \<Longrightarrow> concat (map ((#) CHR ''.'') ws) \<in> star (conc {[CHR ''.'']} A)"
proof (induction ws)
  case Nil
  show ?case by (simp add: star_nil)
next
  case (Cons w ws)
  have w: "w \<in> A" and ws: "list_all (\<lambda>w. w \<in> A) ws" using Cons.prems by simp_all
  have "[CHR ''.''] @ w \<in> conc {[CHR ''.'']} A"
    by (rule concI) (simp_all add: w)
  moreover have "concat (map ((#) CHR ''.'') ws) \<in> star (conc {[CHR ''.'']} A)"
    by (rule Cons.IH [OF ws])
  ultimately have "([CHR ''.''] @ w) @ concat (map ((#) CHR ''.'') ws) \<in> star (conc {[CHR ''.'']} A)"
    by (rule star_app)
  then show ?case by simp
qed

lemma lang_dotted:
  assumes nodot: "\<And>w. w \<in> lang r \<Longrightarrow> CHR ''.'' \<notin> set w"
  shows "s \<in> lang (rx_dotted r) \<longleftrightarrow> list_all (\<lambda>w. w \<in> lang r) (split_on CHR ''.'' s)"
proof
  assume "s \<in> lang (rx_dotted r)"
  then have "s \<in> conc (lang r) (star (conc {[CHR ''.'']} (lang r)))"
    by (simp add: rx_dotted_def Lit_def)
  then obtain w0 rest where "s = w0 @ rest" "w0 \<in> lang r" "rest \<in> star (conc {[CHR ''.'']} (lang r))"
    unfolding conc_iff [of s] by blast
  then show "list_all (\<lambda>w. w \<in> lang r) (split_on CHR ''.'' s)"
    using dotted_star [of "lang r" rest w0] nodot by simp
next
  assume a: "list_all (\<lambda>w. w \<in> lang r) (split_on CHR ''.'' s)"
  obtain x xs where x: "split_on CHR ''.'' s = x # xs"
    using split_on_nonempty [of "CHR ''.''" s] by (cases "split_on CHR ''.'' s") simp_all
  then have s: "s = x @ concat (map ((#) CHR ''.'') xs)" using split_on_join by blast
  have "x \<in> lang r" "list_all (\<lambda>w. w \<in> lang r) xs" using a x by simp_all
  then have "x @ concat (map ((#) CHR ''.'') xs) \<in> conc (lang r) (star (conc {[CHR ''.'']} (lang r)))"
    by (intro concI concat_dotted_star)
  then show "s \<in> lang (rx_dotted r)"
    using s by (simp add: rx_dotted_def Lit_def)
qed

lemma lang_Lit: "lang (Lit c) = {[c]}"
  by (auto simp: Lit_def)

lemma conc_single: "s \<in> conc {[c]} B \<longleftrightarrow> (\<exists>t. s = c # t \<and> t \<in> B)"
  by (auto simp: conc_iff)

lemma lang_optional_part:
  "p \<in> lang (Opt (Seq (Lit c) r)) \<longleftrightarrow> p = [] \<or> (\<exists>t. p = c # t \<and> t \<in> lang r)"
  by (auto simp: Opt_def lang_Lit conc_single)

lemma not_decimal_marks:
  "\<not> isdecimal CHR ''.''" "\<not> isdecimal CHR ''-''" "\<not> isdecimal CHR ''+''"
  by (simp_all add: isdecimal_def code_point_def)

lemma not_alnum_marks: "\<not> alnum_or_hyphen CHR ''.''" "\<not> alnum_or_hyphen CHR ''+''"
  by (simp_all add: alnum_or_hyphen_def ascii_letter_def isdecimal_def code_point_def)

lemma list_all_not_mem: "list_all p w \<Longrightarrow> \<not> p c \<Longrightarrow> c \<notin> set w"
  by (auto simp: list_all_iff)

lemma numeric_no_marks:
  assumes "grammar_numeric w"
  shows "CHR ''.'' \<notin> set w" "CHR ''-'' \<notin> set w" "CHR ''+'' \<notin> set w"
proof -
  have d: "list_all isdecimal w" using grammar_numeric_decimal [OF assms] by simp
  show "CHR ''.'' \<notin> set w" by (rule list_all_not_mem [OF d not_decimal_marks(1)])
  show "CHR ''-'' \<notin> set w" by (rule list_all_not_mem [OF d not_decimal_marks(2)])
  show "CHR ''+'' \<notin> set w" by (rule list_all_not_mem [OF d not_decimal_marks(3)])
qed

lemma prerelease_id_no_marks:
  assumes "grammar_prerelease_identifier w"
  shows "CHR ''.'' \<notin> set w" "CHR ''+'' \<notin> set w"
proof -
  have d: "list_all alnum_or_hyphen w"
    using assms by (simp add: grammar_prerelease_identifier_def)
  show "CHR ''.'' \<notin> set w" by (rule list_all_not_mem [OF d not_alnum_marks(1)])
  show "CHR ''+'' \<notin> set w" by (rule list_all_not_mem [OF d not_alnum_marks(2)])
qed

lemma build_id_no_marks:
  assumes "grammar_build_identifier w"
  shows "CHR ''.'' \<notin> set w"
proof -
  have d: "list_all alnum_or_hyphen w"
    using assms by (simp add: grammar_build_identifier_def)
  show "CHR ''.'' \<notin> set w" by (rule list_all_not_mem [OF d not_alnum_marks(1)])
qed

lemma lang_dotted_prerelease:
  "s \<in> lang (rx_dotted rx_prerelease_id)
     \<longleftrightarrow> list_all grammar_prerelease_identifier (split_on CHR ''.'' s)"
  using lang_dotted [of rx_prerelease_id s] prerelease_id_no_marks(1)
  by (simp add: lang_prerelease_id)

lemma lang_dotted_build:
  "s \<in> lang (rx_dotted rx_build_id)
     \<longleftrightarrow> list_all grammar_build_identifier (split_on CHR ''.'' s)"
  using lang_dotted [of rx_build_id s] build_id_no_marks
  by (simp add: lang_build_id)

lemma mem_split_on:
  "x \<in> set s \<Longrightarrow> x = c \<or> (\<exists>w \<in> set (split_on c s). x \<in> set w)"
proof (induction s)
  case Nil
  then show ?case by simp
next
  case (Cons a s)
  obtain y ys where y: "split_on c s = y # ys"
    using split_on_nonempty [of c s] by (cases "split_on c s") simp_all
  show ?case
  proof (cases "a = c")
    case True
    then show ?thesis using Cons y by auto
  next
    case False
    then show ?thesis using Cons y by auto
  qed
qed

lemma prerelease_no_plus:
  assumes "list_all grammar_prerelease_identifier (split_on CHR ''.'' p)"
  shows "CHR ''+'' \<notin> set p"
proof
  assume "CHR ''+'' \<in> set p"
  from mem_split_on [OF this, of "CHR ''.''"]
  obtain w where "w \<in> set (split_on CHR ''.'' p)" "CHR ''+'' \<in> set w" by auto
  then show False using assms prerelease_id_no_marks(2) [of w] by (auto simp: list_all_iff)
qed

lemma cut_at_absent: "c \<notin> set s \<Longrightarrow> cut_at c s = (s, None)"
proof -
  assume "c \<notin> set s"
  then have d: "dropWhile (\<lambda>x. x \<noteq> c) s = []" by (induction s) auto
  show ?thesis unfolding cut_at_def d by simp
qed

lemma cut_at_first: "c \<notin> set u \<Longrightarrow> cut_at c (u @ c # t) = (u, Some t)"
proof -
  assume a: "c \<notin> set u"
  then have "dropWhile (\<lambda>x. x \<noteq> c) (u @ c # t) = c # t" by (induction u) auto
  moreover from a have "takeWhile (\<lambda>x. x \<noteq> c) (u @ c # t) = u" by (induction u) auto
  ultimately show ?thesis unfolding cut_at_def by simp
qed

lemma cut_at_join:
  assumes "cut_at c s = (m, r)"
  shows "c \<notin> set m \<and> s = m @ (case r of None \<Rightarrow> [] | Some t \<Rightarrow> c # t)"
proof (cases "dropWhile (\<lambda>x. x \<noteq> c) s")
  case Nil
  have "m = s" "r = None" using assms unfolding cut_at_def Nil by simp_all
  moreover have "c \<notin> set s" using Nil by (induction s) (auto split: if_splits)
  ultimately show ?thesis by simp
next
  case (Cons a rest)
  have m: "m = takeWhile (\<lambda>x. x \<noteq> c) s" and r: "r = Some rest"
    using assms unfolding cut_at_def Cons by simp_all
  have "a = c" using hd_dropWhile [of "\<lambda>x. x \<noteq> c" s] Cons by simp
  then have "s = m @ c # rest"
    using takeWhile_dropWhile_id [of "\<lambda>x. x \<noteq> c" s] Cons m by simp
  moreover have "c \<notin> set m" unfolding m by (auto dest: set_takeWhileD)
  ultimately show ?thesis using r by simp
qed

lemma core_split:
  assumes "grammar_numeric a" "grammar_numeric b" "grammar_numeric c"
  shows "grammar_core (a @ CHR ''.'' # b @ CHR ''.'' # c)"
    and "CHR ''-'' \<notin> set (a @ CHR ''.'' # b @ CHR ''.'' # c)"
    and "CHR ''+'' \<notin> set (a @ CHR ''.'' # b @ CHR ''.'' # c)"
proof -
  have "split_on CHR ''.'' (a @ CHR ''.'' # b @ CHR ''.'' # c) = [a, b, c]"
    using numeric_no_marks(1) [OF assms(1)] numeric_no_marks(1) [OF assms(2)]
      numeric_no_marks(1) [OF assms(3)]
    by (simp add: split_on_append_sep split_on_no_sep)
  then show "grammar_core (a @ CHR ''.'' # b @ CHR ''.'' # c)"
    using assms by (simp add: grammar_core_def)
  show "CHR ''-'' \<notin> set (a @ CHR ''.'' # b @ CHR ''.'' # c)"
    using numeric_no_marks(2) [OF assms(1)] numeric_no_marks(2) [OF assms(2)]
      numeric_no_marks(2) [OF assms(3)] by simp
  show "CHR ''+'' \<notin> set (a @ CHR ''.'' # b @ CHR ''.'' # c)"
    using numeric_no_marks(3) [OF assms(1)] numeric_no_marks(3) [OF assms(2)]
      numeric_no_marks(3) [OF assms(3)] by simp
qed

lemma core_join:
  assumes "grammar_core core"
  shows "\<exists>a b c. core = a @ CHR ''.'' # b @ CHR ''.'' # c
           \<and> grammar_numeric a \<and> grammar_numeric b \<and> grammar_numeric c"
proof -
  from assms obtain a b c where sp: "split_on CHR ''.'' core = [a, b, c]"
    and n: "grammar_numeric a" "grammar_numeric b" "grammar_numeric c"
    by (auto simp: grammar_core_def split: list.splits)
  from split_on_join [OF sp] have "core = a @ CHR ''.'' # b @ CHR ''.'' # c" by simp
  with n show ?thesis by blast
qed

lemma semver_pattern_parts:
  "s \<in> lang semver_pattern \<longleftrightarrow>
     (\<exists>a b c p q. s = (a @ CHR ''.'' # b @ CHR ''.'' # c) @ p @ q
        \<and> grammar_numeric a \<and> grammar_numeric b \<and> grammar_numeric c
        \<and> p \<in> lang (Opt (Seq (Lit CHR ''-'') (rx_dotted rx_prerelease_id)))
        \<and> q \<in> lang (Opt (Seq (Lit CHR ''+'') (rx_dotted rx_build_id))))"
proof
  assume "s \<in> lang semver_pattern"
  then obtain a r1 where 1: "s = a @ r1" "a \<in> lang rx_numeric"
      and "r1 \<in> conc {[CHR ''.'']} (conc (lang rx_numeric) (conc {[CHR ''.'']} (conc (lang rx_numeric)
         (conc (lang (Opt (Seq (Lit CHR ''-'') (rx_dotted rx_prerelease_id))))
               (lang (Opt (Seq (Lit CHR ''+'') (rx_dotted rx_build_id))))))))"
    unfolding semver_pattern_def lang.simps(5) lang_Lit conc_iff [of s] by blast
  then obtain r2 where 2: "r1 = CHR ''.'' # r2"
      and "r2 \<in> conc (lang rx_numeric) (conc {[CHR ''.'']} (conc (lang rx_numeric)
         (conc (lang (Opt (Seq (Lit CHR ''-'') (rx_dotted rx_prerelease_id))))
               (lang (Opt (Seq (Lit CHR ''+'') (rx_dotted rx_build_id)))))))"
    unfolding conc_single [of r1] by blast
  then obtain b r3 where 3: "r2 = b @ r3" "b \<in> lang rx_numeric"
      and "r3 \<in> conc {[CHR ''.'']} (conc (lang rx_numeric)
         (conc (lang (Opt (Seq (Lit CHR ''-'') (rx_dotted rx_prerelease_id))))
               (lang (Opt (Seq (Lit CHR ''+'') (rx_dotted rx_build_id))))))"
    unfolding conc_iff [of r2] by blast
  then obtain r4 where 4: "r3 = CHR ''.'' # r4"
      and "r4 \<in> conc (lang rx_numeric)
         (conc (lang (Opt (Seq (Lit CHR ''-'') (rx_dotted rx_prerelease_id))))
               (lang (Opt (Seq (Lit CHR ''+'') (rx_dotted rx_build_id)))))"
    unfolding conc_single [of r3] by blast
  then obtain c r5 where 5: "r4 = c @ r5" "c \<in> lang rx_numeric"
      and "r5 \<in> conc (lang (Opt (Seq (Lit CHR ''-'') (rx_dotted rx_prerelease_id))))
               (lang (Opt (Seq (Lit CHR ''+'') (rx_dotted rx_build_id))))"
    unfolding conc_iff [of r4] by blast
  then obtain p q where 6: "r5 = p @ q"
      "p \<in> lang (Opt (Seq (Lit CHR ''-'') (rx_dotted rx_prerelease_id)))"
      "q \<in> lang (Opt (Seq (Lit CHR ''+'') (rx_dotted rx_build_id)))"
    unfolding conc_iff [of r5] by blast
  have "s = (a @ CHR ''.'' # b @ CHR ''.'' # c) @ p @ q"
    by (simp add: 1 2 3 4 5 6)
  then show "\<exists>a b c p q. s = (a @ CHR ''.'' # b @ CHR ''.'' # c) @ p @ q
        \<and> grammar_numeric a \<and> grammar_numeric b \<and> grammar_numeric c
        \<and> p \<in> lang (Opt (Seq (Lit CHR ''-'') (rx_dotted rx_prerelease_id)))
        \<and> q \<in> lang (Opt (Seq (Lit CHR ''+'') (rx_dotted rx_build_id)))"
    using 1(2) 3(2) 5(2) 6(2,3) unfolding lang_numeric by blast
next
  assume "\<exists>a b c p q. s = (a @ CHR ''.'' # b @ CHR ''.'' # c) @ p @ q
        \<and> grammar_numeric a \<and> grammar_numeric b \<and> grammar_numeric c
        \<and> p \<in> lang (Opt (Seq (Lit CHR ''-'') (rx_dotted rx_prerelease_id)))
        \<and> q \<in> lang (Opt (Seq (Lit CHR ''+'') (rx_dotted rx_build_id)))"
  then obtain a b c p q where s: "s = (a @ CHR ''.'' # b @ CHR ''.'' # c) @ p @ q"
    and n: "a \<in> lang rx_numeric" "b \<in> lang rx_numeric" "c \<in> lang rx_numeric"
    and p: "p \<in> lang (Opt (Seq (Lit CHR ''-'') (rx_dotted rx_prerelease_id)))"
    and q: "q \<in> lang (Opt (Seq (Lit CHR ''+'') (rx_dotted rx_build_id)))"
    unfolding lang_numeric by blast
  have dot: "[CHR ''.''] \<in> lang (Lit CHR ''.'')" by (simp add: lang_Lit)
  have "a @ [CHR ''.''] @ b @ [CHR ''.''] @ c @ p @ q \<in> lang semver_pattern"
    unfolding semver_pattern_def lang.simps(5)
    by (intro concI n p q dot)
  then show "s \<in> lang semver_pattern" by (simp add: s)
qed

lemma semver_pattern_grammar: "s \<in> lang semver_pattern \<longleftrightarrow> semver_grammar s"
proof
  assume "s \<in> lang semver_pattern"
  then obtain a b c p q where s: "s = (a @ CHR ''.'' # b @ CHR ''.'' # c) @ p @ q"
    and n: "grammar_numeric a" "grammar_numeric b" "grammar_numeric c"
    and p: "p \<in> lang (Opt (Seq (Lit CHR ''-'') (rx_dotted rx_prerelease_id)))"
    and q: "q \<in> lang (Opt (Seq (Lit CHR ''+'') (rx_dotted rx_build_id)))"
    unfolding semver_pattern_parts by blast
  let ?core = "a @ CHR ''.'' # b @ CHR ''.'' # c"
  note core = core_split [OF n]
  have pre: "p = [] \<or> (\<exists>t. p = CHR ''-'' # t
               \<and> list_all grammar_prerelease_identifier (split_on CHR ''.'' t))"
    using p unfolding lang_optional_part lang_dotted_prerelease .
  have bld: "q = [] \<or> (\<exists>t. q = CHR ''+'' # t
               \<and> list_all grammar_build_identifier (split_on CHR ''.'' t))"
    using q unfolding lang_optional_part lang_dotted_build .
  have p_plus: "CHR ''+'' \<notin> set p"
    using pre prerelease_no_plus by auto
  have main_plus: "CHR ''+'' \<notin> set (?core @ p)"
    using core(3) p_plus by simp
  have cut_main: "cut_at CHR ''-'' (?core @ p) =
      (?core, case p of [] \<Rightarrow> None | _ # t \<Rightarrow> Some t)"
  proof (cases p)
    case Nil
    then show ?thesis using cut_at_absent [OF core(2)] by simp
  next
    case (Cons x t)
    then have "x = CHR ''-''" using pre by auto
    then show ?thesis using cut_at_first [OF core(2), of t] Cons by simp
  qed
  have pre_ok: "case (case p of [] \<Rightarrow> None | _ # t \<Rightarrow> Some t) of None \<Rightarrow> True
      | Some t \<Rightarrow> list_all grammar_prerelease_identifier (split_on CHR ''.'' t)"
    using pre by (cases p) auto
  show "semver_grammar s"
  proof (cases q)
    case Nil
    then have "cut_at CHR ''+'' s = (?core @ p, None)"
      using cut_at_absent [OF main_plus] s by simp
    then show ?thesis
      using cut_main pre_ok core(1) by (simp add: semver_grammar_def)
  next
    case (Cons x t)
    then have x: "x = CHR ''+''" and t: "list_all grammar_build_identifier (split_on CHR ''.'' t)"
      using bld by auto
    have "cut_at CHR ''+'' s = (?core @ p, Some t)"
      using cut_at_first [OF main_plus, of t] s Cons x by simp
    then show ?thesis
      using cut_main pre_ok core(1) t by (simp add: semver_grammar_def)
  qed
next
  assume g: "semver_grammar s"
  obtain main build where cb: "cut_at CHR ''+'' s = (main, build)"
    by (cases "cut_at CHR ''+'' s")
  obtain core pre where cp: "cut_at CHR ''-'' main = (core, pre)"
    by (cases "cut_at CHR ''-'' main")
  from g have gc: "grammar_core core"
    and gp: "case pre of None \<Rightarrow> True
             | Some p \<Rightarrow> list_all grammar_prerelease_identifier (split_on CHR ''.'' p)"
    and gb: "case build of None \<Rightarrow> True
             | Some b \<Rightarrow> list_all grammar_build_identifier (split_on CHR ''.'' b)"
    by (simp_all add: semver_grammar_def cb cp)
  from core_join [OF gc] obtain a b c where core: "core = a @ CHR ''.'' # b @ CHR ''.'' # c"
    and n: "grammar_numeric a" "grammar_numeric b" "grammar_numeric c"
    by blast
  let ?p = "case pre of None \<Rightarrow> [] | Some t \<Rightarrow> CHR ''-'' # t"
  let ?q = "case build of None \<Rightarrow> [] | Some t \<Rightarrow> CHR ''+'' # t"
  have s: "s = (a @ CHR ''.'' # b @ CHR ''.'' # c) @ ?p @ ?q"
    using cut_at_join [OF cb] cut_at_join [OF cp] core by simp
  have p: "?p \<in> lang (Opt (Seq (Lit CHR ''-'') (rx_dotted rx_prerelease_id)))"
    unfolding lang_optional_part lang_dotted_prerelease using gp by (cases pre) auto
  have q: "?q \<in> lang (Opt (Seq (Lit CHR ''+'') (rx_dotted rx_build_id)))"
    unfolding lang_optional_part lang_dotted_build using gb by (cases build) auto
  show "s \<in> lang semver_pattern"
    unfolding semver_pattern_parts using s n p q by blast
qed

lemma strip_no_final_newline:
  "rev (strip s) = c # before \<Longrightarrow> c \<noteq> CHR 0x0A"
proof -
  assume a: "rev (strip s) = c # before"
  then have "dropWhile isspace (rev (dropWhile isspace s)) = c # before"
    by (simp add: strip_def)
  then have "\<not> isspace c"
    using hd_dropWhile [of isspace "rev (dropWhile isspace s)"] by simp
  moreover have "isspace CHR 0x0A" by (simp add: isspace_def code_point_def)
  ultimately show ?thesis by auto
qed

text \<open>
  Claim C8, as stated: \<open>isValid\<close> accepts exactly the strings of the grammar. The code strips
  the string before matching, so it also accepts a version with surrounding whitespace,
  which the grammar does not contain.
\<close>

theorem is_valid_version_accepts_padded:
  "is_valid_version '' 1.0.0'' \<and> \<not> semver_grammar '' 1.0.0''"
proof -
  have a: "is_valid_version '' 1.0.0''" by code_simp
  have b: "\<not> semver_grammar '' 1.0.0''" by code_simp
  from a b show ?thesis by simp
qed

text \<open>
  Claim C8, amended: among the strings of code points up to U+00FF, \<open>isValid\<close> accepts
  exactly the non-empty ones that belong to the grammar after leading and trailing
  whitespace is removed; numeric identifiers, in the core and in the pre-release part,
  have no leading zero. It accepts \<open>1.0.0\<close> and \<open>1.0.0-alpha+001\<close> and rejects the empty
  string, \<open>1.0\<close> and \<open>v1.0.0\<close>. The statement is about the modelled strings only: above
  U+00FF the pattern's \<open>\d\<close> also matches the decimal digits of other scripts, and what
  \<open>isValid\<close> does with them is not stated here.
\<close>

theorem is_valid_version_grammar:
  "is_valid_version s = (s \<noteq> [] \<and> semver_grammar (strip s))
   \<and> is_valid_version ''1.0.0'' \<and> is_valid_version ''1.0.0-alpha+001''
   \<and> \<not> is_valid_version [] \<and> \<not> is_valid_version ''1.0'' \<and> \<not> is_valid_version ''v1.0.0''"
proof -
  have "re_match semver_pattern (strip s) = matches semver_pattern (strip s)"
    using strip_no_final_newline [of s]
    by (auto simp: re_match_def split: list.splits)
  then have g: "is_valid_version s = (s \<noteq> [] \<and> semver_grammar (strip s))"
    by (simp add: is_valid_version_def matches_lang semver_pattern_grammar)
  have e1: "is_valid_version ''1.0.0''" by code_simp
  have e2: "is_valid_version ''1.0.0-alpha+001''" by code_simp
  have e3: "\<not> is_valid_version []" by code_simp
  have e4: "\<not> is_valid_version ''1.0''" by code_simp
  have e5: "\<not> is_valid_version ''v1.0.0''" by code_simp
  from g e1 e2 e3 e4 e5 show ?thesis by blast
qed

end
